theory Spec2Isabelle
  imports Complex_Main "HOL-Library.Word"
begin

section \<open>Data model\<close>

text \<open>
  The metadata store has two tables (schema.sql): \<open>uploads\<close> and \<open>chunks\<close>. A table is the
  list of its rows, a row is a record of its columns. A \<open>NULL\<close> column is \<open>None\<close>.
  Timestamps (\<open>DATETIME\<close>, \<open>NOW()\<close>) are seconds as integers; every operation that
  evaluates \<open>NOW()\<close> takes the clock reading as its argument \<open>now\<close>.
\<close>

type_synonym byte = "8 word"
type_synonym path = string
type_synonym fs = "path \<rightharpoonup> byte list"

datatype upload_status = UPLOADING | PROCESSING | COMPLETED | FAILED

datatype chunk_status = PENDING | SUCCESS

record upload_row =
  up_id :: string
  filename :: string
  total_size :: nat
  total_chunks :: nat
  status :: upload_status
  final_hash :: "string option"
  file_path :: path
  created_at :: int
  updated_at :: int
  completed_at :: "int option"

record chunk_row =
  upload_id :: string
  chunk_index :: nat
  cstatus :: chunk_status
  received_at :: "int option"

text \<open>
  The state the backend works on: both tables and the files on disk (the upload
  directory). The staging file that the transport layer (multer) writes for a chunk
  before the controller runs is not part of the state: a chunk request carries its
  payload as a byte list.
\<close>

record state =
  uploads :: "upload_row list"
  chunks :: "chunk_row list"
  files :: fs

text \<open>
  The process environment and the external collaborators. \<open>env_CHUNK_SIZE\<close> and
  \<open>env_ABANDONED_UPLOAD_TIMEOUT\<close> are the results of \<open>parseInt\<close> on the environment
  variables, \<open>None\<close> standing for \<open>NaN\<close> (variable unset or not a number).
  \<open>sha256\<close> is what \<open>hashUtils.calculateFileHash\<close> returns for a file with the given
  contents, \<open>valid_zip\<close> what \<open>zipUtils.isValidZip\<close> (yauzl) answers for it.
  \<open>interval_frac\<close> is the number of seconds MySQL takes for \<open>INTERVAL h HOUR\<close> when
  \<open>h\<close> is not an integer.
\<close>

record env =
  UPLOAD_DIR :: string
  env_CHUNK_SIZE :: "int option"
  env_ABANDONED_UPLOAD_TIMEOUT :: "int option"
  sha256 :: "byte list \<Rightarrow> string"
  valid_zip :: "byte list \<Rightarrow> bool"
  interval_frac :: "rat \<Rightarrow> int"

text \<open>JavaScript's \<open>x || d\<close> on a number: \<open>NaN\<close> and \<open>0\<close> are falsy.\<close>

definition or_default :: "int option \<Rightarrow> int \<Rightarrow> int" where
  "or_default x d = (case x of None \<Rightarrow> d | Some v \<Rightarrow> if v = 0 then d else v)"

text \<open>uploadController.js, line 9.\<close>

definition CHUNK_SIZE :: "env \<Rightarrow> int" where
  "CHUNK_SIZE E = or_default (env_CHUNK_SIZE E) 5242880"

section \<open>fileUtils\<close>

datatype io_error = ENOENT | ERR_OUT_OF_RANGE

text \<open>
  \<open>preallocateFile\<close>: \<open>fs.open(filePath, 'w')\<close> creates the file or empties it,
  \<open>truncate(size)\<close> then gives it \<open>size\<close> zero bytes.
\<close>

definition preallocateFile :: "fs \<Rightarrow> path \<Rightarrow> nat \<Rightarrow> fs" where
  "preallocateFile fs filePath sz = fs(filePath \<mapsto> replicate sz 0)"

text \<open>
  What a positioned write does to the contents of a file (POSIX \<open>pwrite\<close>, which the
  write stream with \<open>start\<close> issues): the bytes land at \<open>off\<close>; a write that ends
  beyond the end of the file makes the file longer, a write that starts beyond it
  leaves a gap of zero bytes. An empty stream issues no write.
\<close>

definition write_bytes :: "byte list \<Rightarrow> nat \<Rightarrow> byte list \<Rightarrow> byte list" where
  "write_bytes old off dat =
     (if dat = [] then old
      else take off old @ replicate (off - length old) 0 @ dat @ drop (off + length dat) old)"

text \<open>
  \<open>writeChunkAtOffset(filePath, offset, dataStream)\<close>: \<open>createWriteStream\<close> with
  \<open>flags: 'r+'\<close> and \<open>start: offset\<close>. A negative \<open>start\<close> is refused when the stream is
  created; \<open>'r+'\<close> does not create a missing file, so opening fails with \<open>ENOENT\<close>.
  Both reject the promise. Otherwise the whole stream is piped and the promise resolves
  with \<open>bytesWritten\<close>, the sum of the lengths of the \<open>data\<close> events.
\<close>

definition writeChunkAtOffset :: "fs \<Rightarrow> path \<Rightarrow> int \<Rightarrow> byte list \<Rightarrow> io_error + (nat \<times> fs)" where
  "writeChunkAtOffset fs filePath offset dataStream =
     (if offset < 0 then Inl ERR_OUT_OF_RANGE
      else case fs filePath of
             None \<Rightarrow> Inl ENOENT
           | Some old \<Rightarrow>
               Inr (length dataStream, fs(filePath \<mapsto> write_bytes old (nat offset) dataStream)))"

text \<open>\<open>safeDeleteFile\<close>: \<open>unlink\<close>, a missing file is not an error.\<close>

definition safeDeleteFile :: "fs \<Rightarrow> path \<Rightarrow> fs" where
  "safeDeleteFile fs filePath = fs(filePath := None)"

text \<open>\<open>getFileSize\<close>: \<open>stat\<close> throws on a missing file.\<close>

definition getFileSize :: "fs \<Rightarrow> path \<Rightarrow> io_error + nat" where
  "getFileSize fs filePath =
     (case fs filePath of None \<Rightarrow> Inl ENOENT | Some b \<Rightarrow> Inr (length b))"

definition fileExists :: "fs \<Rightarrow> path \<Rightarrow> bool" where
  "fileExists fs filePath = (fs filePath \<noteq> None)"

section \<open>hashUtils and zipUtils\<close>

text \<open>
  \<open>calculateFileHash\<close> streams the file into SHA-256; the read stream's error (a missing
  file) rejects the promise. \<open>isValidZip\<close> resolves \<open>false\<close> when yauzl cannot open the
  file, a missing file included.
\<close>

definition calculateFileHash :: "env \<Rightarrow> fs \<Rightarrow> path \<Rightarrow> io_error + string" where
  "calculateFileHash E fs filePath =
     (case fs filePath of None \<Rightarrow> Inl ENOENT | Some b \<Rightarrow> Inr (sha256 E b))"

definition isValidZip :: "env \<Rightarrow> fs \<Rightarrow> path \<Rightarrow> bool" where
  "isValidZip E fs zipPath =
     (case fs zipPath of None \<Rightarrow> False | Some b \<Rightarrow> valid_zip E b)"

section \<open>MetaStore queries\<close>

text \<open>
  \<open>SELECT ... FROM uploads WHERE id = ?\<close>: the matching rows, in table order; the
  callers read \<open>uploads[0]\<close>.
\<close>

definition select_upload :: "state \<Rightarrow> string \<Rightarrow> upload_row list" where
  "select_upload s uid = filter (\<lambda>u. up_id u = uid) (uploads s)"

text \<open>\<open>UPDATE uploads SET ... WHERE id = ?\<close>.\<close>

definition update_uploads :: "string \<Rightarrow> (upload_row \<Rightarrow> upload_row) \<Rightarrow> state \<Rightarrow> state" where
  "update_uploads uid f s =
     s\<lparr>uploads := map (\<lambda>u. if up_id u = uid then f u else u) (uploads s)\<rparr>"

text \<open>The row a caller works on: \<open>uploads[0]\<close>, if there is one.\<close>

definition get_upload :: "state \<Rightarrow> string \<Rightarrow> upload_row option" where
  "get_upload s uid = (case select_upload s uid of [] \<Rightarrow> None | u # _ \<Rightarrow> Some u)"

text \<open>
  Modelled from the spec: the statement that binds \<open>chunks\<close>, which \<open>uploadChunk\<close> reads
  at line 145, is missing from uploadController.js. Section 4.5, step 1 of the spec
  ("if the chunk row is already SUCCESS") makes it the row of \<open>(session_id, index)\<close>:
  \<open>SELECT status FROM chunks WHERE upload_id = ? AND chunk_index = ?\<close>.
\<close>

definition select_chunk :: "state \<Rightarrow> string \<Rightarrow> nat \<Rightarrow> chunk_row list" where
  "select_chunk s uid i = filter (\<lambda>c. upload_id c = uid \<and> chunk_index c = i) (chunks s)"

text \<open>Line 145: \<open>chunks.length > 0 && chunks[0].status === 'SUCCESS'\<close>.\<close>

definition chunk_already_success :: "state \<Rightarrow> string \<Rightarrow> nat \<Rightarrow> bool" where
  "chunk_already_success s uid i =
     (case select_chunk s uid i of [] \<Rightarrow> False | c # _ \<Rightarrow> cstatus c = SUCCESS)"

text \<open>
  \<open>UPDATE chunks SET status = 'SUCCESS', received_at = NOW()
   WHERE upload_id = ? AND chunk_index = ?\<close> (uploadController.js, lines 160-164).
\<close>

definition mark_chunk_success :: "int \<Rightarrow> string \<Rightarrow> nat \<Rightarrow> state \<Rightarrow> state" where
  "mark_chunk_success now uid i s =
     s\<lparr>chunks := map (\<lambda>c. if upload_id c = uid \<and> chunk_index c = i
                             then c\<lparr>cstatus := SUCCESS, received_at := Some now\<rparr> else c)
                     (chunks s)\<rparr>"

text \<open>
  \<open>SELECT COUNT(*) as total, SUM(CASE WHEN status = 'SUCCESS' THEN 1 ELSE 0 END) as completed
   FROM chunks WHERE upload_id = ?\<close>. \<open>SUM\<close> over no rows is \<open>NULL\<close>. The driver is taken to
  hand both columns over as numbers.
\<close>

definition count_chunks :: "state \<Rightarrow> string \<Rightarrow> nat \<times> nat option" where
  "count_chunks s uid =
     (let rows = filter (\<lambda>c. upload_id c = uid) (chunks s)
      in (length rows,
          if rows = [] then None
          else Some (length (filter (\<lambda>c. cstatus c = SUCCESS) rows))))"

text \<open>JavaScript's \<open>completed < total\<close>: \<open>null\<close> converts to \<open>0\<close>.\<close>

definition js_lt :: "nat option \<Rightarrow> nat \<Rightarrow> bool" where
  "js_lt completed tot = (case completed of None \<Rightarrow> 0 < tot | Some c \<Rightarrow> c < tot)"

text \<open>
  \<open>INSERT INTO uploads\<close> and \<open>INSERT INTO chunks\<close>: a row whose primary key is already in
  the table, or a chunk row whose \<open>upload_id\<close> names no upload (the foreign key), makes
  the statement fail (\<open>None\<close>).
\<close>

definition insert_upload :: "upload_row \<Rightarrow> state \<Rightarrow> state option" where
  "insert_upload r s =
     (if up_id r \<in> set (map up_id (uploads s)) then None
      else Some (s\<lparr>uploads := uploads s @ [r]\<rparr>))"

definition chunk_key :: "chunk_row \<Rightarrow> string \<times> nat" where
  "chunk_key c = (upload_id c, chunk_index c)"

definition insert_chunks :: "chunk_row list \<Rightarrow> state \<Rightarrow> state option" where
  "insert_chunks rows s =
     (if (\<exists>r \<in> set rows. chunk_key r \<in> set (map chunk_key (chunks s)))
         \<or> (\<exists>r \<in> set rows. upload_id r \<notin> set (map up_id (uploads s)))
         \<or> \<not> distinct (map chunk_key rows)
      then None
      else Some (s\<lparr>chunks := chunks s @ rows\<rparr>))"

section \<open>HTTP requests and responses\<close>

datatype error_msg =
    MissingFields
  | InvalidSizeOrChunks
  | OnlyZipSupported
  | InitFailed
  | UploadNotFound
  | NotAccepting upload_status
  | InvalidChunkIndex int
  | ChunkUploadFailed

text \<open>
  The JSON bodies of \<open>initializeUpload\<close> and \<open>uploadChunk\<close>. \<open>ChunkUploaded\<close> carries
  \<open>chunkIndex\<close> and \<open>progress = {completed, total, isComplete}\<close>; \<open>ChunkDuplicate\<close>
  carries \<open>chunkIndex\<close> and \<open>duplicate: true\<close>.
\<close>

datatype body =
    Error error_msg
  | InitOk string "nat list"
  | ChunkDuplicate int
  | ChunkUploaded int "nat option" nat bool

type_synonym response = "nat \<times> body"

definition http_status :: "response \<Rightarrow> nat" where
  "http_status r = fst r"

text \<open>The \<open>duplicate\<close> field of a response body; \<open>None\<close> when the body has none.\<close>

fun duplicate_field :: "body \<Rightarrow> bool option" where
  "duplicate_field (ChunkDuplicate i) = Some True"
| "duplicate_field b = None"

text \<open>\<open>parseInt\<close> gives an integer or \<open>NaN\<close>.\<close>

datatype js_num = NaN | Num int

text \<open>
  The fields of a chunk request: \<open>req.body.uploadId\<close>, \<open>parseInt(req.body.chunkIndex)\<close>
  (\<open>None\<close> when the field is \<open>undefined\<close>) and the payload of \<open>req.file\<close>.
\<close>

record chunk_request =
  req_uploadId :: "string option"
  req_chunkIndex :: "js_num option"
  req_file :: "byte list option"

record init_request =
  req_filename :: "string option"
  req_totalSize :: "int option"
  req_totalChunks :: "int option"

section \<open>uploadController: uploadChunk\<close>

text \<open>
  \<open>uploadChunk\<close> (uploadController.js, lines 102-210). The result is the response, the
  new state, and the upload ids for which \<open>setTimeout(() => finalizeUpload(uploadId), 0)\<close>
  was called, in call order: they run after the handler.

  \<^item> \<open>NaN < 0\<close> and \<open>NaN >= total_chunks\<close> are both false, so a \<open>NaN\<close> index passes the
    index check; the write at offset \<open>NaN\<close> is refused and the \<open>catch\<close> answers 500.
  \<^item> \<open>chunkStream\<close> (line 156) has no binding in the file; it is taken to be the
    stream of the request's payload.
  \<^item> Lines 177-179 schedule the finalizer when \<open>isComplete\<close>; line 180, after the
    brace that closes the \<open>if\<close>, schedules it again whatever \<open>isComplete\<close> is. The
    closing brace of line 181 has no opening counterpart in the function and stands for
    nothing in the model.
  \<^item> The \<open>catch\<close> (lines 193-204) answers 500 and changes neither table.
\<close>

definition uploadChunk ::
    "env \<Rightarrow> int \<Rightarrow> chunk_request \<Rightarrow> state \<Rightarrow> response \<times> state \<times> string list" where
  "uploadChunk E now req s =
     (case (req_uploadId req, req_chunkIndex req, req_file req) of
        (Some uploadId, Some chunkIndexNum, Some chunkData) \<Rightarrow>
          if uploadId = [] then ((400, Error MissingFields), s, [])
          else
            (case select_upload s uploadId of
               [] \<Rightarrow> ((404, Error UploadNotFound), s, [])
             | upload # _ \<Rightarrow>
                 if status upload \<noteq> UPLOADING
                 then ((400, Error (NotAccepting (status upload))), s, [])
                 else
                   (case chunkIndexNum of
                      NaN \<Rightarrow> ((500, Error ChunkUploadFailed), s, [])
                    | Num i \<Rightarrow>
                        if i < 0 \<or> i \<ge> int (total_chunks upload)
                        then ((400, Error (InvalidChunkIndex i)), s, [])
                        else if chunk_already_success s uploadId (nat i)
                        then ((200, ChunkDuplicate i), s, [])
                        else
                          (case writeChunkAtOffset (files s) (file_path upload)
                                  (i * CHUNK_SIZE E) chunkData of
                             Inl e \<Rightarrow> ((500, Error ChunkUploadFailed), s, [])
                           | Inr (bytesWritten, fs') \<Rightarrow>
                               (let s1 = s\<lparr>files := fs'\<rparr>;
                                    s2 = mark_chunk_success now uploadId (nat i) s1;
                                    total = fst (count_chunks s2 uploadId);
                                    completed = snd (count_chunks s2 uploadId);
                                    isComplete = (completed = Some total)
                                in ((200, ChunkUploaded i completed total isComplete), s2,
                                    (if isComplete then [uploadId] else []) @ [uploadId])))))
      | _ \<Rightarrow> ((400, Error MissingFields), s, []))"

section \<open>uploadController: finalizeUpload\<close>

text \<open>
  \<open>finalizeUpload\<close> has two parts. The first (lines 216-247) is one transaction under
  the row lock of \<open>SELECT ... FOR UPDATE\<close>: it returns the row it read when it moved the
  upload from UPLOADING to PROCESSING, and \<open>None\<close> when it returned early.
\<close>

definition finalize_lock :: "int \<Rightarrow> string \<Rightarrow> state \<Rightarrow> upload_row option \<times> state" where
  "finalize_lock now uploadId s =
     (case select_upload s uploadId of
        [] \<Rightarrow> (None, s)
      | upload # _ \<Rightarrow>
          if status upload \<noteq> UPLOADING then (None, s)
          else (Some upload,
                update_uploads uploadId (\<lambda>u. u\<lparr>status := PROCESSING, updated_at := now\<rparr>) s))"

text \<open>
  The second part (lines 251-283) runs outside the transaction on the row read in the
  first: size check, hash, archive check, then COMPLETED with the hash; every throw
  (a missing file included) ends in the \<open>catch\<close>, which sets FAILED.
\<close>

definition finalize_verify :: "env \<Rightarrow> int \<Rightarrow> string \<Rightarrow> upload_row \<Rightarrow> state \<Rightarrow> state" where
  "finalize_verify E now uploadId upload s =
     (case getFileSize (files s) (file_path upload) of
        Inl e \<Rightarrow> update_uploads uploadId (\<lambda>u. u\<lparr>status := FAILED\<rparr>) s
      | Inr actualSize \<Rightarrow>
          if actualSize \<noteq> total_size upload
          then update_uploads uploadId (\<lambda>u. u\<lparr>status := FAILED\<rparr>) s
          else
            (case calculateFileHash E (files s) (file_path upload) of
               Inl e \<Rightarrow> update_uploads uploadId (\<lambda>u. u\<lparr>status := FAILED\<rparr>) s
             | Inr finalHash \<Rightarrow>
                 if \<not> isValidZip E (files s) (file_path upload)
                 then update_uploads uploadId (\<lambda>u. u\<lparr>status := FAILED\<rparr>) s
                 else update_uploads uploadId
                        (\<lambda>u. u\<lparr>status := COMPLETED, final_hash := Some finalHash,
                                completed_at := Some now\<rparr>) s))"

definition finalizeUpload :: "env \<Rightarrow> int \<Rightarrow> string \<Rightarrow> state \<Rightarrow> state" where
  "finalizeUpload E now uploadId s =
     (case finalize_lock now uploadId s of
        (None, s') \<Rightarrow> s'
      | (Some upload, s') \<Rightarrow> finalize_verify E now uploadId upload s')"

text \<open>A chunk request followed by the timers it set.\<close>

definition handle_chunk :: "env \<Rightarrow> int \<Rightarrow> chunk_request \<Rightarrow> state \<Rightarrow> response \<times> state" where
  "handle_chunk E now req s =
     (case uploadChunk E now req s of
        (r, s', timers) \<Rightarrow> (r, fold (finalizeUpload E now) timers s'))"

section \<open>uploadController: initializeUpload\<close>

text \<open>\<open>toLowerCase\<close> on the ASCII letters and \<open>endsWith\<close>.\<close>

definition to_lower :: "char \<Rightarrow> char" where
  "to_lower c =
     (let n = (of_char c :: nat) in if 65 \<le> n \<and> n \<le> 90 then char_of (n + 32) else c)"

definition ends_with :: "string \<Rightarrow> string \<Rightarrow> bool" where
  "ends_with xs suf = (length suf \<le> length xs \<and> drop (length xs - length suf) xs = suf)"

text \<open>Line 39: \<open>path.join(UPLOAD_DIR, `${uploadId}.zip`)\<close>.\<close>

definition blob_path :: "env \<Rightarrow> string \<Rightarrow> path" where
  "blob_path E uploadId = UPLOAD_DIR E @ ''/'' @ uploadId @ ''.zip''"

text \<open>
  \<open>initializeUpload\<close> (uploadController.js, lines 11-100). \<open>uploadId\<close> is the value of
  \<open>uuidv4()\<close>. The file is preallocated before the transaction starts, so it stays when
  an \<open>INSERT\<close> fails and the transaction is rolled back. \<open>path.join\<close> is taken without
  its normalisation of the directory name.
\<close>

definition initializeUpload ::
    "env \<Rightarrow> int \<Rightarrow> string \<Rightarrow> init_request \<Rightarrow> state \<Rightarrow> response \<times> state" where
  "initializeUpload E now uploadId req s =
     (case (req_filename req, req_totalSize req, req_totalChunks req) of
        (Some fname, Some totalSize, Some totalChunks) \<Rightarrow>
          if fname = [] \<or> totalSize = 0 \<or> totalChunks = 0
          then ((400, Error MissingFields), s)
          else if totalSize \<le> 0 \<or> totalChunks \<le> 0
          then ((400, Error InvalidSizeOrChunks), s)
          else if \<not> ends_with (map to_lower fname) ''.zip''
          then ((400, Error OnlyZipSupported), s)
          else
            (let filePath = blob_path E uploadId;
                 s1 = s\<lparr>files := preallocateFile (files s) filePath (nat totalSize)\<rparr>
             in case insert_upload
                       \<lparr>up_id = uploadId, filename = fname, total_size = nat totalSize,
                        total_chunks = nat totalChunks, status = UPLOADING,
                        final_hash = None, file_path = filePath, created_at = now,
                        updated_at = now, completed_at = None\<rparr> s1 of
                  None \<Rightarrow> ((500, Error InitFailed), s1)
                | Some s2 \<Rightarrow>
                    (case insert_chunks
                            (map (\<lambda>i. \<lparr>upload_id = uploadId, chunk_index = i,
                                        cstatus = PENDING, received_at = None\<rparr>)
                                 [0..<nat totalChunks]) s2 of
                       None \<Rightarrow> ((500, Error InitFailed), s1)
                     | Some s3 \<Rightarrow>
                         ((200, InitOk uploadId
                                  (map chunk_index
                                     (filter (\<lambda>c. upload_id c = uploadId \<and> cstatus c = SUCCESS)
                                        (chunks s3)))), s3)))
      | _ \<Rightarrow> ((400, Error MissingFields), s))"

section \<open>recoveryService\<close>

text \<open>
  \<open>recoverSingleUpload\<close> (lines 46-120), on a row \<open>upload\<close> read by the sweep's
  \<open>SELECT\<close>.
\<close>

definition recoverSingleUpload :: "env \<Rightarrow> int \<Rightarrow> upload_row \<Rightarrow> state \<Rightarrow> state" where
  "recoverSingleUpload E now upload s =
     (if \<not> fileExists (files s) (file_path upload)
      then update_uploads (up_id upload) (\<lambda>u. u\<lparr>status := FAILED\<rparr>) s
      else
        (let total = fst (count_chunks s (up_id upload));
             completed = snd (count_chunks s (up_id upload))
         in if js_lt completed total
            then update_uploads (up_id upload)
                   (\<lambda>u. u\<lparr>status := UPLOADING, updated_at := now\<rparr>) s
            else
              (case getFileSize (files s) (file_path upload) of
                 Inl e \<Rightarrow> update_uploads (up_id upload)
                           (\<lambda>u. u\<lparr>status := FAILED, updated_at := now\<rparr>) s
               | Inr actualSize \<Rightarrow>
                   if actualSize \<noteq> total_size upload
                   then update_uploads (up_id upload)
                          (\<lambda>u. u\<lparr>status := FAILED, updated_at := now\<rparr>) s
                   else
                     (case calculateFileHash E (files s) (file_path upload) of
                        Inl e \<Rightarrow> update_uploads (up_id upload)
                                  (\<lambda>u. u\<lparr>status := FAILED, updated_at := now\<rparr>) s
                      | Inr finalHash \<Rightarrow>
                          if \<not> isValidZip E (files s) (file_path upload)
                          then update_uploads (up_id upload)
                                 (\<lambda>u. u\<lparr>status := FAILED, updated_at := now\<rparr>) s
                          else update_uploads (up_id upload)
                                 (\<lambda>u. u\<lparr>status := COMPLETED, final_hash := Some finalHash,
                                         completed_at := Some now, updated_at := now\<rparr>) s))))"

text \<open>
  Sweep A, \<open>recoverInterruptedUploads\<close> (lines 15-44): the rows in PROCESSING are read
  once, then recovered one after the other.
\<close>

definition recoverInterruptedUploads :: "env \<Rightarrow> int \<Rightarrow> state \<Rightarrow> state" where
  "recoverInterruptedUploads E now s =
     fold (recoverSingleUpload E now) (filter (\<lambda>u. status u = PROCESSING) (uploads s)) s"

text \<open>
  Line 127: \<open>parseInt(process.env.ABANDONED_UPLOAD_TIMEOUT) / 3600000 || 24\<close>, a number
  of hours that need not be whole.
\<close>

definition ABANDONED_TIMEOUT_HOURS :: "env \<Rightarrow> rat" where
  "ABANDONED_TIMEOUT_HOURS E =
     (case env_ABANDONED_UPLOAD_TIMEOUT E of
        None \<Rightarrow> 24
      | Some t \<Rightarrow> if t = 0 then 24 else of_int t / 3600000)"

text \<open>\<open>DATE_SUB(NOW(), INTERVAL h HOUR)\<close>, in seconds.\<close>

definition date_sub_hours :: "env \<Rightarrow> int \<Rightarrow> rat \<Rightarrow> int" where
  "date_sub_hours E now h =
     now - (if of_int \<lfloor>h\<rfloor> = h then 3600 * \<lfloor>h\<rfloor> else interval_frac E h)"

text \<open>
  Sweep B, \<open>recoverAbandonedUploads\<close> (lines 125-158). The body of its loop
  (lines 144-148): the blob is deleted, then the row is set to FAILED.
\<close>

definition abandon_upload :: "int \<Rightarrow> upload_row \<Rightarrow> state \<Rightarrow> state" where
  "abandon_upload now upload s =
     update_uploads (up_id upload) (\<lambda>u. u\<lparr>status := FAILED, updated_at := now\<rparr>)
       (s\<lparr>files := safeDeleteFile (files s) (file_path upload)\<rparr>)"

definition recoverAbandonedUploads :: "env \<Rightarrow> int \<Rightarrow> state \<Rightarrow> state" where
  "recoverAbandonedUploads E now s =
     fold (abandon_upload now)
          (filter (\<lambda>u. status u = UPLOADING
                       \<and> created_at u < date_sub_hours E now (ABANDONED_TIMEOUT_HOURS E))
             (uploads s))
          s"

definition performStartupRecovery :: "env \<Rightarrow> int \<Rightarrow> state \<Rightarrow> state" where
  "performStartupRecovery E now s =
     recoverAbandonedUploads E now (recoverInterruptedUploads E now s)"

section \<open>cleanupService\<close>

text \<open>Lines 5 and 12: \<open>Math.floor\<close> of the quotient is \<open>div\<close> on the integers.\<close>

definition ABANDONED_TIMEOUT :: "env \<Rightarrow> int" where
  "ABANDONED_TIMEOUT E = or_default (env_ABANDONED_UPLOAD_TIMEOUT E) 86400000"

definition timeoutHours :: "env \<Rightarrow> int" where
  "timeoutHours E = ABANDONED_TIMEOUT E div 3600000"

text \<open>
  The rows the sweep reads (lines 15-20):
  \<open>status = 'UPLOADING' AND created_at < DATE_SUB(NOW(), INTERVAL timeoutHours HOUR)\<close>.
\<close>

definition abandonedUploads :: "env \<Rightarrow> int \<Rightarrow> state \<Rightarrow> upload_row list" where
  "abandonedUploads E now s =
     filter (\<lambda>u. status u = UPLOADING \<and> created_at u < now - 3600 * timeoutHours E)
       (uploads s)"

text \<open>The body of the loop (lines 29-44): delete the file, mark the row FAILED.\<close>

definition cleanup_upload :: "upload_row \<Rightarrow> state \<Rightarrow> state" where
  "cleanup_upload upload s =
     update_uploads (up_id upload) (\<lambda>u. u\<lparr>status := FAILED\<rparr>)
       (s\<lparr>files := safeDeleteFile (files s) (file_path upload)\<rparr>)"

definition cleanupAbandonedUploads :: "env \<Rightarrow> int \<Rightarrow> state \<Rightarrow> state" where
  "cleanupAbandonedUploads E now s = fold cleanup_upload (abandonedUploads E now s) s"

section \<open>Two finalizers on one upload\<close>

text \<open>
  Two tasks run \<open>finalizeUpload\<close> on the same upload. A task takes two steps: the
  transaction under the row lock, which is atomic, and, when it moved the upload to
  PROCESSING, the checks with the terminal update. A schedule says which task takes
  the next step and what the clock shows. The last component of a configuration counts
  the terminal updates performed so far.
\<close>

datatype fin_pc = Ready | Locked upload_row | Finished

definition fin_step ::
    "env \<Rightarrow> int \<Rightarrow> string \<Rightarrow> fin_pc \<Rightarrow> state \<Rightarrow> fin_pc \<times> state \<times> nat" where
  "fin_step E now uid pc s =
     (case pc of
        Ready \<Rightarrow> (case finalize_lock now uid s of
                    (None, s') \<Rightarrow> (Finished, s', 0)
                  | (Some upload, s') \<Rightarrow> (Locked upload, s', 0))
      | Locked upload \<Rightarrow> (Finished, finalize_verify E now uid upload s, 1)
      | Finished \<Rightarrow> (Finished, s, 0))"

fun run_two ::
    "env \<Rightarrow> string \<Rightarrow> (bool \<times> int) list \<Rightarrow> state \<times> fin_pc \<times> fin_pc \<times> nat
       \<Rightarrow> state \<times> fin_pc \<times> fin_pc \<times> nat" where
  "run_two E uid [] c = c"
| "run_two E uid ((first, now) # sched) (s, p1, p2, n) =
     (if first
      then (case fin_step E now uid p1 s of
              (p1', s', k) \<Rightarrow> run_two E uid sched (s', p1', p2, n + k))
      else (case fin_step E now uid p2 s of
              (p2', s', k) \<Rightarrow> run_two E uid sched (s', p1, p2', n + k)))"

definition is_locked :: "fin_pc \<Rightarrow> bool" where
  "is_locked pc = (case pc of Locked u \<Rightarrow> True | _ \<Rightarrow> False)"

definition steps_left :: "fin_pc \<Rightarrow> nat" where
  "steps_left pc = (case pc of Ready \<Rightarrow> 2 | Locked u \<Rightarrow> 1 | Finished \<Rightarrow> 0)"

text \<open>What holds of every configuration the two tasks can be in.\<close>

definition two_inv :: "string \<Rightarrow> state \<times> fin_pc \<times> fin_pc \<times> nat \<Rightarrow> bool" where
  "two_inv uid c =
     (case c of (s, p1, p2, n) \<Rightarrow>
        (case get_upload s uid of
           None \<Rightarrow> False
         | Some u \<Rightarrow>
             (status u = UPLOADING \<and> p1 = Ready \<and> p2 = Ready \<and> n = 0)
           \<or> (status u = PROCESSING \<and> n = 0 \<and> (is_locked p1 \<noteq> is_locked p2))
           \<or> ((status u = COMPLETED \<or> status u = FAILED) \<and> n = 1
                \<and> \<not> is_locked p1 \<and> \<not> is_locked p2)))"

section \<open>Example environment and states\<close>

text \<open>
  A small configuration for concrete runs: \<open>CHUNK_SIZE = 4\<close>, a hash function that
  returns the same digest for every file, and an archive check that accepts every file.
\<close>

definition env0 :: env where
  "env0 = \<lparr>UPLOAD_DIR = ''up'', env_CHUNK_SIZE = Some 4, env_ABANDONED_UPLOAD_TIMEOUT = None,
            sha256 = (\<lambda>b. ''digest''), valid_zip = (\<lambda>b. True), interval_frac = (\<lambda>h. 0)\<rparr>"

definition empty_state :: state where
  "empty_state = \<lparr>uploads = [], chunks = [], files = Map.empty\<rparr>"

text \<open>
  Upload \<open>''a''\<close>: 6 bytes in 2 chunks, created at time 100, with the given status and the
  given status of chunk 0; chunk 1 is PENDING.
\<close>

definition row_a :: "upload_status \<Rightarrow> upload_row" where
  "row_a st = \<lparr>up_id = ''a'', filename = ''x.zip'', total_size = 6, total_chunks = 2,
               status = st, final_hash = None, file_path = ''up/a.zip'',
               created_at = 100, updated_at = 100, completed_at = None\<rparr>"

definition st_two :: "upload_status \<Rightarrow> chunk_status \<Rightarrow> state" where
  "st_two st c0 =
     \<lparr>uploads = [row_a st],
      chunks = [\<lparr>upload_id = ''a'', chunk_index = 0, cstatus = c0, received_at = None\<rparr>,
                \<lparr>upload_id = ''a'', chunk_index = 1, cstatus = PENDING, received_at = None\<rparr>],
      files = Map.empty(''up/a.zip'' \<mapsto> [0, 0, 0, 0, 0, 0])\<rparr>"

text \<open>Upload \<open>''b''\<close>: 4 bytes in 1 chunk, UPLOADING, nothing received.\<close>

definition row_b :: upload_row where
  "row_b = \<lparr>up_id = ''b'', filename = ''y.zip'', total_size = 4, total_chunks = 1,
            status = UPLOADING, final_hash = None, file_path = ''up/b.zip'',
            created_at = 100, updated_at = 100, completed_at = None\<rparr>"

definition st_one :: state where
  "st_one =
     \<lparr>uploads = [row_b],
      chunks = [\<lparr>upload_id = ''b'', chunk_index = 0, cstatus = PENDING, received_at = None\<rparr>],
      files = Map.empty(''up/b.zip'' \<mapsto> [0, 0, 0, 0])\<rparr>"

definition chunk_req :: "string \<Rightarrow> int \<Rightarrow> byte list \<Rightarrow> chunk_request" where
  "chunk_req uid i payload =
     \<lparr>req_uploadId = Some uid, req_chunkIndex = Some (Num i), req_file = Some payload\<rparr>"

section \<open>Reachable states\<close>

text \<open>
  A COMPLETED row and the blob it names agree: the blob has \<open>total_size\<close> bytes and
  \<open>final_hash\<close> is its digest.
\<close>

definition blob_matches :: "env \<Rightarrow> state \<Rightarrow> upload_row \<Rightarrow> bool" where
  "blob_matches E s u =
     (case files s (file_path u) of
        None \<Rightarrow> False
      | Some blob \<Rightarrow> length blob = total_size u \<and> final_hash u = Some (sha256 E blob))"

text \<open>
  What is kept true of every row: its path is the one \<open>initializeUpload\<close> gave it, a
  hash is stored only in COMPLETED, and a COMPLETED row matches its blob. The ids of the
  table are distinct (the primary key).
\<close>

definition row_ok :: "env \<Rightarrow> state \<Rightarrow> upload_row \<Rightarrow> bool" where
  "row_ok E s u =
     (file_path u = blob_path E (up_id u)
      \<and> (final_hash u \<noteq> None \<longrightarrow> status u = COMPLETED)
      \<and> (status u = COMPLETED \<longrightarrow> blob_matches E s u))"

definition store_inv :: "env \<Rightarrow> state \<Rightarrow> bool" where
  "store_inv E s =
     (distinct (map up_id (uploads s)) \<and> (\<forall>u \<in> set (uploads s). row_ok E s u))"

text \<open>
  The states the backend can be in, starting from empty tables. The steps are the
  operations of the source, each run as a whole: a session is created (\<open>uuidv4\<close> returns
  an id that names no upload), a chunk request is handled, \<open>finalizeUpload\<close> runs (for any
  id, at any time: the timers of \<open>uploadChunk\<close> are among these runs), startup recovery
  runs, the cleanup sweep runs. The process may also stop inside an operation: after the
  finalizer's transaction has committed PROCESSING, after a blob was preallocated, while
  a chunk is being written to the blob of an UPLOADING session (the blob then has any
  contents), and after a sweep deleted the blob of an UPLOADING session.
\<close>

inductive reachable :: "env \<Rightarrow> state \<Rightarrow> bool" for E :: env where
  start: "reachable E empty_state"
| init: "reachable E s \<Longrightarrow> uid \<notin> set (map up_id (uploads s))
         \<Longrightarrow> reachable E (snd (initializeUpload E now uid req s))"
| chunk: "reachable E s \<Longrightarrow> reachable E (fst (snd (uploadChunk E now req s)))"
| finalize: "reachable E s \<Longrightarrow> reachable E (finalizeUpload E now uid s)"
| lock: "reachable E s \<Longrightarrow> reachable E (snd (finalize_lock now uid s))"
| recovery: "reachable E s \<Longrightarrow> reachable E (performStartupRecovery E now s)"
| cleanup: "reachable E s \<Longrightarrow> reachable E (cleanupAbandonedUploads E now s)"
| stop_after_prealloc:
    "reachable E s \<Longrightarrow> uid \<notin> set (map up_id (uploads s))
     \<Longrightarrow> reachable E (s\<lparr>files := preallocateFile (files s) (blob_path E uid) n\<rparr>)"
| stop_in_write:
    "reachable E s \<Longrightarrow> select_upload s uid = u # rest \<Longrightarrow> status u = UPLOADING
     \<Longrightarrow> reachable E (s\<lparr>files := (files s)(file_path u \<mapsto> b)\<rparr>)"
| stop_after_delete:
    "reachable E s \<Longrightarrow> u \<in> set (uploads s) \<Longrightarrow> status u = UPLOADING
     \<Longrightarrow> reachable E (s\<lparr>files := safeDeleteFile (files s) (file_path u)\<rparr>)"



section \<open>Positioned writes\<close>

lemma length_write_bytes:
  "length (write_bytes old off dat) =
     (if dat = [] then length old else max (length old) (off + length dat))"
  by (auto simp: write_bytes_def)

lemma write_bytes_payload:
  "dat \<noteq> [] \<Longrightarrow> take (length dat) (drop off (write_bytes old off dat)) = dat"
  by (auto simp: write_bytes_def min_def)

lemma write_bytes_outside:
  assumes "i < length old" and "i < off \<or> off + length dat \<le> i"
  shows "write_bytes old off dat ! i = old ! i"
proof (cases "dat = []")
  case True
  then show ?thesis by (simp add: write_bytes_def)
next
  case False
  from assms(2) show ?thesis
  proof
    assume "i < off"
    with assms(1) False show ?thesis
      by (simp add: write_bytes_def nth_append)
  next
    assume h: "off + length dat \<le> i"
    with assms(1) have lo: "off \<le> length old" by simp
    from h assms(1) False lo show ?thesis
      by (auto simp: write_bytes_def nth_append min_def)
  qed
qed

text \<open>
  C7, as the spec states it, fails: a write that ends beyond the end of the file makes
  the file longer. A 4-byte file written at offset 2 with 4 bytes has 6 bytes afterwards.
\<close>

theorem write_at_extends_file:
  "writeChunkAtOffset (Map.empty(''blob'' \<mapsto> [1, 2, 3, 4])) ''blob'' 2 [9, 9, 9, 9]
     = Inr (4, Map.empty(''blob'' \<mapsto> [1, 2, 9, 9, 9, 9]))
   \<and> length [1, 2, 9, 9, 9, 9 :: byte] \<noteq> length [1, 2, 3, 4 :: byte]"
  by (simp add: writeChunkAtOffset_def write_bytes_def)

text \<open>
  C7 (amended): on an existing file and a non-negative offset, \<open>writeChunkAtOffset\<close>
  writes the whole payload at the offset and returns its length; it never truncates;
  the size afterwards is the larger of the old size and \<open>offset + length payload\<close>
  (for a non-empty payload), so the size is unchanged exactly when the write ends
  inside the file; every byte of the old file outside
  \<open>[offset, offset + length payload)\<close> is unchanged; no other file is touched.
\<close>

theorem write_at_frame:
  assumes "fs p = Some old" and "0 \<le> off"
  shows "writeChunkAtOffset fs p off dat
           = Inr (length dat, fs(p \<mapsto> write_bytes old (nat off) dat))
       \<and> (dat \<noteq> [] \<longrightarrow> take (length dat) (drop (nat off) (write_bytes old (nat off) dat)) = dat)
       \<and> length (write_bytes old (nat off) dat)
           = (if dat = [] then length old else max (length old) (nat off + length dat))
       \<and> length old \<le> length (write_bytes old (nat off) dat)
       \<and> (nat off + length dat \<le> length old
            \<longrightarrow> length (write_bytes old (nat off) dat) = length old)
       \<and> (\<forall>i < length old. i < nat off \<or> nat off + length dat \<le> i
            \<longrightarrow> write_bytes old (nat off) dat ! i = old ! i)
       \<and> (\<forall>q. q \<noteq> p \<longrightarrow> (fs(p \<mapsto> write_bytes old (nat off) dat)) q = fs q)"
  using assms
  by (simp add: writeChunkAtOffset_def write_bytes_payload write_bytes_outside
      length_write_bytes)

theorem write_at_frame_witness:
  "writeChunkAtOffset (Map.empty(''blob'' \<mapsto> [1, 2, 3, 4, 5, 6])) ''blob'' 2 [9, 9]
     = Inr (2, Map.empty(''blob'' \<mapsto> [1, 2, 9, 9, 5, 6]))
   \<and> length (write_bytes [1, 2, 3, 4, 5, 6] 2 [9, 9]) = 6"
  using write_at_frame [of "Map.empty(''blob'' \<mapsto> [1, 2, 3, 4, 5, 6])" "''blob''"
      "[1, 2, 3, 4, 5, 6]" 2 "[9, 9]"]
  by (simp add: write_bytes_def)

section \<open>Chunk ingestion\<close>

lemma filter_map_update:
  "(\<And>x. P x \<Longrightarrow> P (f x))
   \<Longrightarrow> filter P (map (\<lambda>x. if P x then f x else x) xs) = map f (filter P xs)"
  by (induction xs) auto

lemma select_chunk_mark_success:
  "select_chunk (mark_chunk_success now uid i s) uid i
     = map (\<lambda>c. c\<lparr>cstatus := SUCCESS, received_at := Some now\<rparr>) (select_chunk s uid i)"
proof -
  have "filter (\<lambda>c. upload_id c = uid \<and> chunk_index c = i)
          (map (\<lambda>c. if upload_id c = uid \<and> chunk_index c = i
                     then c\<lparr>cstatus := SUCCESS, received_at := Some now\<rparr> else c) xs)
        = map (\<lambda>c. c\<lparr>cstatus := SUCCESS, received_at := Some now\<rparr>)
            (filter (\<lambda>c. upload_id c = uid \<and> chunk_index c = i) xs)" for xs
    by (rule filter_map_update) simp
  then show ?thesis
    by (simp add: select_chunk_def mark_chunk_success_def)
qed

lemma select_upload_mark_success [simp]:
  "select_upload (mark_chunk_success now uid i s) uid' = select_upload s uid'"
  by (simp add: select_upload_def mark_chunk_success_def)

lemma select_upload_files_update [simp]:
  "select_upload (s\<lparr>files := fs'\<rparr>) uid = select_upload s uid"
  by (simp add: select_upload_def)

lemma select_chunk_files_update [simp]:
  "select_chunk (s\<lparr>files := fs'\<rparr>) uid i = select_chunk s uid i"
  by (simp add: select_chunk_def)

lemma files_mark_chunk_success [simp]:
  "files (mark_chunk_success now uid i s) = files s"
  by (simp add: mark_chunk_success_def)

lemma uploads_mark_chunk_success [simp]:
  "uploads (mark_chunk_success now uid i s) = uploads s"
  by (simp add: mark_chunk_success_def)

lemma chunk_already_success_after_mark:
  "select_chunk s uid i \<noteq> [] \<Longrightarrow> chunk_already_success (mark_chunk_success now uid i s) uid i"
  by (cases "select_chunk s uid i")
    (simp_all add: chunk_already_success_def select_chunk_mark_success)

text \<open>
  C8, as the spec states it, fails on the status code: a chunk sent to a session in
  PROCESSING is answered with 400, not 409.
\<close>

theorem chunk_while_processing_is_400:
  "uploadChunk env0 101 (chunk_req ''a'' 1 [5, 6]) (st_two PROCESSING SUCCESS)
     = ((400, Error (NotAccepting PROCESSING)), st_two PROCESSING SUCCESS, [])
   \<and> http_status (fst (uploadChunk env0 101 (chunk_req ''a'' 1 [5, 6]) (st_two PROCESSING SUCCESS)))
       \<noteq> 409"
  by (simp add: uploadChunk_def chunk_req_def st_two_def select_upload_def row_a_def
      http_status_def)

text \<open>
  C8 (amended): a chunk request that names a session whose status is not UPLOADING is
  rejected with HTTP status 400 and an error naming the status; neither table nor any
  file changes, and no finalizer is scheduled.
\<close>

theorem chunk_rejected_when_not_uploading:
  assumes "select_upload s uid = upload # rest"
    and "status upload \<noteq> UPLOADING"
    and "uid \<noteq> []"
  shows "uploadChunk E now
           \<lparr>req_uploadId = Some uid, req_chunkIndex = Some k, req_file = Some payload\<rparr> s
         = ((400, Error (NotAccepting (status upload))), s, [])"
  using assms by (simp add: uploadChunk_def)

theorem chunk_rejected_when_not_uploading_witness:
  "uploadChunk env0 7
     \<lparr>req_uploadId = Some ''a'', req_chunkIndex = Some (Num 0), req_file = Some [1, 2, 3, 4]\<rparr>
     (st_two COMPLETED SUCCESS)
   = ((400, Error (NotAccepting (status (row_a COMPLETED)))), st_two COMPLETED SUCCESS, [])"
proof -
  have h1: "select_upload (st_two COMPLETED SUCCESS) ''a'' = row_a COMPLETED # []"
    by (simp add: select_upload_def st_two_def row_a_def)
  have h2: "status (row_a COMPLETED) \<noteq> UPLOADING"
    by (simp add: row_a_def)
  have h3: "''a'' \<noteq> []" by simp
  show ?thesis
    by (rule chunk_rejected_when_not_uploading [OF h1 h2 h3])
qed


text \<open>
  What \<open>uploadChunk\<close> does with a chunk it accepts: the payload is written at
  \<open>index * CHUNK_SIZE\<close>, the chunk row is marked, the rows are counted.
\<close>

lemma uploadChunk_accepts:
  assumes "select_upload s uid = upload # rest"
    and "status upload = UPLOADING"
    and "uid \<noteq> []"
    and "0 \<le> i" and "i < int (total_chunks upload)"
    and "\<not> chunk_already_success s uid (nat i)"
    and "files s (file_path upload) = Some blob"
    and "0 \<le> CHUNK_SIZE E"
  shows "uploadChunk E now (chunk_req uid i payload) s
         = (let s2 = mark_chunk_success now uid (nat i)
                       (s\<lparr>files := (files s)(file_path upload \<mapsto>
                              write_bytes blob (nat (i * CHUNK_SIZE E)) payload)\<rparr>);
                completed = snd (count_chunks s2 uid);
                tot = fst (count_chunks s2 uid)
            in ((200, ChunkUploaded i completed tot (completed = Some tot)), s2,
                (if completed = Some tot then [uid] else []) @ [uid]))"
proof -
  from assms(4,8) have "\<not> i * CHUNK_SIZE E < 0"
    by (simp add: not_less)
  with assms show ?thesis
    by (simp add: uploadChunk_def chunk_req_def writeChunkAtOffset_def Let_def)
qed

text \<open>The index is checked: outside \<open>[0, total_chunks)\<close> the request is answered 400.\<close>

lemma chunk_index_validated:
  assumes "select_upload s uid = upload # rest"
    and "status upload = UPLOADING"
    and "uid \<noteq> []"
    and "i < 0 \<or> int (total_chunks upload) \<le> i"
  shows "uploadChunk E now (chunk_req uid i payload) s
           = ((400, Error (InvalidChunkIndex i)), s, [])"
  using assms by (auto simp: uploadChunk_def chunk_req_def)

text \<open>Every accepted chunk schedules the finalizer, complete or not.\<close>

lemma accepted_chunk_schedules_finalizer:
  assumes "select_upload s uid = upload # rest"
    and "status upload = UPLOADING"
    and "uid \<noteq> []"
    and "0 \<le> i" and "i < int (total_chunks upload)"
    and "\<not> chunk_already_success s uid (nat i)"
    and "files s (file_path upload) = Some blob"
    and "0 \<le> CHUNK_SIZE E"
  shows "uid \<in> set (snd (snd (uploadChunk E now (chunk_req uid i payload) s)))"
  by (simp add: uploadChunk_accepts [OF assms] Let_def)

text \<open>
  C6, as the spec states it, fails: \<open>uploadChunk\<close> never looks at the length of the
  payload. With \<open>CHUNK_SIZE = 4\<close> and a 6-byte upload in 2 chunks, chunk 0 is accepted
  with 5 bytes (longer than \<open>CHUNK_SIZE\<close>) and with 1 byte (a short non-final chunk), and
  the final chunk 1 is accepted with 3 bytes, although \<open>6 - (2 - 1) * 4 = 2\<close>.
\<close>

theorem chunk_of_any_length_accepted:
  "fst (uploadChunk env0 101 (chunk_req ''a'' 0 [1, 2, 3, 4, 5]) (st_two UPLOADING PENDING))
     = (200, ChunkUploaded 0 (Some 1) 2 False)
   \<and> CHUNK_SIZE env0 < int (length [1, 2, 3, 4, 5 :: byte])
   \<and> fst (uploadChunk env0 101 (chunk_req ''a'' 0 [1]) (st_two UPLOADING PENDING))
     = (200, ChunkUploaded 0 (Some 1) 2 False)
   \<and> int (length [1 :: byte]) < CHUNK_SIZE env0
   \<and> fst (uploadChunk env0 101 (chunk_req ''a'' 1 [7, 8, 9]) (st_two UPLOADING PENDING))
     = (200, ChunkUploaded 1 (Some 1) 2 False)
   \<and> int (length [7, 8, 9 :: byte]) \<noteq> 6 - (2 - 1) * CHUNK_SIZE env0"
  by code_simp

text \<open>
  C6 (amended): \<open>uploadChunk\<close> checks the position of a chunk only through its index;
  the length of the payload is not checked. For an UPLOADING session whose blob is
  on disk, an index in \<open>[0, total_chunks)\<close> whose row is not yet SUCCESS and a payload of
  any length, the request is answered 200 (not as a duplicate), the whole payload is written
  at offset \<open>index * CHUNK_SIZE\<close>, and the chunk row is marked SUCCESS.
\<close>

theorem chunk_length_not_validated:
  assumes "select_upload s uid = upload # rest"
    and "status upload = UPLOADING"
    and "uid \<noteq> []"
    and "0 \<le> i" and "i < int (total_chunks upload)"
    and "\<not> chunk_already_success s uid (nat i)"
    and "files s (file_path upload) = Some blob"
    and "0 \<le> CHUNK_SIZE E"
  shows "http_status (fst (uploadChunk E now (chunk_req uid i payload) s)) = 200
       \<and> duplicate_field (snd (fst (uploadChunk E now (chunk_req uid i payload) s))) = None
       \<and> files (fst (snd (uploadChunk E now (chunk_req uid i payload) s))) (file_path upload)
           = Some (write_bytes blob (nat (i * CHUNK_SIZE E)) payload)
       \<and> (\<forall>c \<in> set (select_chunk (fst (snd (uploadChunk E now (chunk_req uid i payload) s)))
                        uid (nat i)). cstatus c = SUCCESS)"
  using assms
  by (simp add: uploadChunk_accepts Let_def http_status_def select_chunk_mark_success)

theorem chunk_length_not_validated_witness:
  "http_status (fst (uploadChunk env0 101 (chunk_req ''a'' 0 [1, 2, 3, 4, 5, 6, 7])
                       (st_two UPLOADING PENDING))) = 200
   \<and> files (fst (snd (uploadChunk env0 101 (chunk_req ''a'' 0 [1, 2, 3, 4, 5, 6, 7])
                         (st_two UPLOADING PENDING)))) ''up/a.zip''
       = Some [1, 2, 3, 4, 5, 6, 7]"
proof -
  have h1: "select_upload (st_two UPLOADING PENDING) ''a'' = row_a UPLOADING # []"
    by (simp add: select_upload_def st_two_def row_a_def)
  have h2: "status (row_a UPLOADING) = UPLOADING"
    by (simp add: row_a_def)
  have h3: "''a'' \<noteq> []" by simp
  have h4: "(0::int) \<le> 0" by simp
  have h5: "0 < int (total_chunks (row_a UPLOADING))"
    by (simp add: row_a_def)
  have h6: "\<not> chunk_already_success (st_two UPLOADING PENDING) ''a'' (nat 0)"
    by (simp add: chunk_already_success_def select_chunk_def st_two_def)
  have h7: "files (st_two UPLOADING PENDING) (file_path (row_a UPLOADING))
              = Some [0, 0, 0, 0, 0, 0]"
    by (simp add: st_two_def row_a_def)
  have h8: "0 \<le> CHUNK_SIZE env0"
    by (simp add: CHUNK_SIZE_def env0_def or_default_def)
  have p: "file_path (row_a UPLOADING) = ''up/a.zip''"
    by (simp add: row_a_def)
  have w: "write_bytes [0, 0, 0, 0, 0, 0] (nat (0 * CHUNK_SIZE env0)) [1, 2, 3, 4, 5, 6, 7]
             = [1, 2, 3, 4, 5, 6, 7]"
    by (simp add: write_bytes_def)
  show ?thesis
    using chunk_length_not_validated [OF h1 h2 h3 h4 h5 h6 h7 h8, of 101 "[1, 2, 3, 4, 5, 6, 7]"]
    by (simp only: p w)
qed

text \<open>
  C1, as the spec states it, fails for a session that has left UPLOADING: the status
  check comes before the duplicate check. The single chunk of upload \<open>''b''\<close> is
  accepted and completes the upload, the finalizer it scheduled runs, and the same
  request sent again finds the chunk row SUCCESS but is answered 400 without a
  \<open>duplicate\<close> field.
\<close>

theorem retry_after_finalization_not_duplicate:
  "fst (handle_chunk env0 101 (chunk_req ''b'' 0 [1, 2, 3, 4]) st_one)
     = (200, ChunkUploaded 0 (Some 1) 1 True)
   \<and> chunk_already_success
        (snd (handle_chunk env0 101 (chunk_req ''b'' 0 [1, 2, 3, 4]) st_one)) ''b'' 0
   \<and> fst (uploadChunk env0 102 (chunk_req ''b'' 0 [1, 2, 3, 4])
            (snd (handle_chunk env0 101 (chunk_req ''b'' 0 [1, 2, 3, 4]) st_one)))
     = (400, Error (NotAccepting COMPLETED))
   \<and> duplicate_field (Error (NotAccepting COMPLETED)) \<noteq> Some True"
  by code_simp

text \<open>
  C1 (amended): for a session that is still UPLOADING and a chunk index in range whose
  chunk row is already SUCCESS, a repeated chunk request returns the response with
  \<open>duplicate: true\<close> and status 200, changes neither table nor any file (the blob is not
  written), and schedules no finalizer.
\<close>

theorem duplicate_chunk_is_noop:
  assumes "select_upload s uid = upload # rest"
    and "status upload = UPLOADING"
    and "uid \<noteq> []"
    and "0 \<le> i" and "i < int (total_chunks upload)"
    and "chunk_already_success s uid (nat i)"
  shows "uploadChunk E now (chunk_req uid i payload) s = ((200, ChunkDuplicate i), s, [])
       \<and> duplicate_field (snd (fst (uploadChunk E now (chunk_req uid i payload) s))) = Some True"
  using assms by (simp add: uploadChunk_def chunk_req_def)

theorem duplicate_chunk_is_noop_witness:
  "uploadChunk env0 101 (chunk_req ''a'' 0 [1, 2, 3, 4]) (st_two UPLOADING SUCCESS)
     = ((200, ChunkDuplicate 0), st_two UPLOADING SUCCESS, [])"
proof -
  have h1: "select_upload (st_two UPLOADING SUCCESS) ''a'' = row_a UPLOADING # []"
    by (simp add: select_upload_def st_two_def row_a_def)
  have h2: "status (row_a UPLOADING) = UPLOADING"
    by (simp add: row_a_def)
  have h3: "''a'' \<noteq> []" by simp
  have h4: "(0::int) \<le> 0" by simp
  have h5: "0 < int (total_chunks (row_a UPLOADING))"
    by (simp add: row_a_def)
  have h6: "chunk_already_success (st_two UPLOADING SUCCESS) ''a'' (nat 0)"
    by (simp add: chunk_already_success_def select_chunk_def st_two_def)
  show ?thesis
    using duplicate_chunk_is_noop [OF h1 h2 h3 h4 h5 h6, of env0 101 "[1, 2, 3, 4]"]
    by simp
qed

text \<open>
  The retry seen from the first call: when a chunk request was accepted and its
  chunk row exists, the same request sent again before the session leaves UPLOADING is
  a duplicate and changes nothing.
\<close>

lemma accepted_chunk_then_retry:
  assumes "uploadChunk E now (chunk_req uid i payload) s
             = ((200, ChunkUploaded j c t ic), s1, timers)"
    and "select_chunk s uid (nat i) \<noteq> []"
  shows "uploadChunk E now' (chunk_req uid i payload) s1 = ((200, ChunkDuplicate i), s1, [])"
  using assms
  apply (auto simp: uploadChunk_def chunk_req_def Let_def
      split: list.splits if_splits sum.splits js_num.splits)
  apply (auto simp: chunk_already_success_after_mark)
  done


section \<open>The finalizer trigger\<close>



section \<open>Finalization\<close>

lemma select_upload_update:
  assumes "\<And>u. up_id (f u) = up_id u"
  shows "select_upload (update_uploads uid f s) uid = map f (select_upload s uid)"
proof -
  have "filter (\<lambda>u. up_id u = uid) (map (\<lambda>u. if up_id u = uid then f u else u) xs)
          = map f (filter (\<lambda>u. up_id u = uid) xs)" for xs
    by (rule filter_map_update) (simp add: assms)
  then show ?thesis
    by (simp add: select_upload_def update_uploads_def)
qed

lemma get_upload_update:
  assumes "\<And>u. up_id (f u) = up_id u"
  shows "get_upload (update_uploads uid f s) uid = map_option f (get_upload s uid)"
  by (simp add: get_upload_def select_upload_update [OF assms] split: list.splits)

lemma finalize_lock_noop:
  "get_upload s uid = Some u \<Longrightarrow> status u \<noteq> UPLOADING \<Longrightarrow> finalize_lock now uid s = (None, s)"
  by (auto simp: finalize_lock_def get_upload_def split: list.splits)

lemma finalize_lock_missing:
  "get_upload s uid = None \<Longrightarrow> finalize_lock now uid s = (None, s)"
  by (auto simp: finalize_lock_def get_upload_def split: list.splits)

lemma finalize_lock_wins:
  "get_upload s uid = Some u \<Longrightarrow> status u = UPLOADING \<Longrightarrow>
   finalize_lock now uid s = (Some u, update_uploads uid (\<lambda>u. u\<lparr>status := PROCESSING, updated_at := now\<rparr>) s)"
  by (auto simp: finalize_lock_def get_upload_def split: list.splits)

lemma finalize_verify_status:
  "get_upload (finalize_verify E now uid upload s) uid = Some u'
   \<Longrightarrow> status u' = COMPLETED \<or> status u' = FAILED"
  by (auto simp: finalize_verify_def get_upload_update split: option.splits sum.splits if_splits)

lemma finalize_verify_exists:
  "get_upload s uid = Some u \<Longrightarrow> get_upload (finalize_verify E now uid upload s) uid \<noteq> None"
  by (auto simp: finalize_verify_def get_upload_update split: option.splits sum.splits)

lemma fin_step_inv:
  assumes "two_inv uid (s, p1, p2, n)"
  shows "(case fin_step E now uid p1 s of (p1', s', k) \<Rightarrow> two_inv uid (s', p1', p2, n + k))"
    and "(case fin_step E now uid p2 s of (p2', s', k) \<Rightarrow> two_inv uid (s', p1, p2', n + k))"
  using assms
  by (auto simp: two_inv_def fin_step_def is_locked_def finalize_lock_noop finalize_lock_wins
      get_upload_update
      split: option.splits fin_pc.splits
      dest: finalize_verify_status finalize_verify_exists)

lemma run_two_inv:
  "two_inv uid c \<Longrightarrow> two_inv uid (run_two E uid sched c)"
proof (induction sched arbitrary: c)
  case Nil
  then show ?case by simp
next
  case (Cons a sched)
  obtain first now where a: "a = (first, now)" by (cases a)
  obtain s p1 p2 n where c: "c = (s, p1, p2, n)" by (cases c)
  from Cons.prems c have inv: "two_inv uid (s, p1, p2, n)" by simp
  show ?case
    using fin_step_inv [OF inv, of E now] Cons.IH
    by (auto simp: a c split: prod.splits)
qed

lemma finalizeUpload_idem:
  "finalizeUpload E now' uid (finalizeUpload E now uid s) = finalizeUpload E now uid s"
proof (cases "get_upload s uid")
  case None
  then show ?thesis by (simp add: finalizeUpload_def finalize_lock_missing)
next
  case (Some u)
  show ?thesis
  proof (cases "status u = UPLOADING")
    case False
    with Some show ?thesis by (simp add: finalizeUpload_def finalize_lock_noop)
  next
    case True
    let ?s1 = "update_uploads uid (\<lambda>u. u\<lparr>status := PROCESSING, updated_at := now\<rparr>) s"
    have g: "get_upload ?s1 uid \<noteq> None" using Some by (simp add: get_upload_update)
    from True Some have e: "finalizeUpload E now uid s = finalize_verify E now uid u ?s1"
      by (simp add: finalizeUpload_def finalize_lock_wins)
    from g obtain u1 where "get_upload ?s1 uid = Some u1" by auto
    from finalize_verify_exists [OF this, of E now u]
    obtain u' where u': "get_upload (finalize_verify E now uid u ?s1) uid = Some u'" by auto
    from finalize_verify_status [OF u'] have "status u' \<noteq> UPLOADING" by auto
    with u' show ?thesis
      by (simp add: e) (simp add: finalizeUpload_def finalize_lock_noop)
  qed
qed

lemma fin_step_progress:
  "fin_step E now uid pc s = (pc', s', k) \<Longrightarrow> steps_left pc' \<le> steps_left pc - 1"
  by (auto simp: fin_step_def steps_left_def split: fin_pc.splits prod.splits option.splits)

lemma run_two_finishes:
  "steps_left p1 \<le> length (filter fst sched)
   \<Longrightarrow> steps_left p2 \<le> length (filter (\<lambda>x. \<not> fst x) sched)
   \<Longrightarrow> \<exists>s' n'. run_two E uid sched (s, p1, p2, n) = (s', Finished, Finished, n')"
proof (induction sched arbitrary: s p1 p2 n)
  case Nil
  then show ?case
    by (auto simp: steps_left_def split: fin_pc.splits)
next
  case (Cons a sched)
  obtain first now where a: "a = (first, now)" by (cases a)
  show ?case
  proof (cases first)
    case True
    obtain p1' s' k where st: "fin_step E now uid p1 s = (p1', s', k)"
      by (cases "fin_step E now uid p1 s")
    from fin_step_progress [OF st] Cons.prems(1) a True
    have 1: "steps_left p1' \<le> length (filter fst sched)" by simp
    from Cons.prems(2) a True
    have 2: "steps_left p2 \<le> length (filter (\<lambda>x. \<not> fst x) sched)" by simp
    from Cons.IH [OF 1 2, of s' "n + k"] show ?thesis
      by (simp add: a True st)
  next
    case False
    obtain p2' s' k where st: "fin_step E now uid p2 s = (p2', s', k)"
      by (cases "fin_step E now uid p2 s")
    from fin_step_progress [OF st] Cons.prems(2) a False
    have 2: "steps_left p2' \<le> length (filter (\<lambda>x. \<not> fst x) sched)" by simp
    from Cons.prems(1) a False
    have 1: "steps_left p1 \<le> length (filter fst sched)" by simp
    from Cons.IH [OF 1 2, of s' "n + k"] show ?thesis
      by (simp add: a False st)
  qed
qed

lemma two_inv_count: "two_inv uid (s, p1, p2, n) \<Longrightarrow> n \<le> 1"
  by (auto simp: two_inv_def split: option.splits)

lemma two_inv_finished:
  "two_inv uid (s, Finished, Finished, n)
   \<Longrightarrow> n = 1 \<and> (\<exists>u'. get_upload s uid = Some u' \<and> (status u' = COMPLETED \<or> status u' = FAILED))"
  by (auto simp: two_inv_def is_locked_def split: option.splits)


text \<open>
  C3: a second \<open>finalizeUpload\<close> on the same upload changes nothing; a call that finds
  a status other than UPLOADING under the row lock returns with the state as it was;
  and for an upload in UPLOADING, in every interleaving of the steps of two finalizer
  tasks at most one terminal update has been performed at any time, exactly one when both
  tasks have finished, and the upload is then COMPLETED or FAILED. Every schedule that
  gives each task two steps lets both finish.
\<close>

theorem finalize_twice:
  "finalizeUpload E now' uid (finalizeUpload E now uid s) = finalizeUpload E now uid s
   \<and> (\<forall>u. get_upload s uid = Some u \<and> status u \<noteq> UPLOADING
          \<longrightarrow> finalize_lock now uid s = (None, s) \<and> finalizeUpload E now uid s = s)
   \<and> (\<forall>u. get_upload s uid = Some u \<and> status u = UPLOADING
          \<longrightarrow> (\<exists>u'. get_upload (finalizeUpload E now uid s) uid = Some u'
                    \<and> (status u' = COMPLETED \<or> status u' = FAILED))
            \<and> (\<forall>sched s' p1 p2 n.
                  run_two E uid sched (s, Ready, Ready, 0) = (s', p1, p2, n)
                  \<longrightarrow> n \<le> 1
                    \<and> (p1 = Finished \<and> p2 = Finished
                         \<longrightarrow> n = 1 \<and> (\<exists>u'. get_upload s' uid = Some u'
                                         \<and> (status u' = COMPLETED \<or> status u' = FAILED))))
            \<and> (\<forall>sched. 2 \<le> length (filter fst sched)
                         \<and> 2 \<le> length (filter (\<lambda>x. \<not> fst x) sched)
                  \<longrightarrow> (\<exists>s'. run_two E uid sched (s, Ready, Ready, 0)
                              = (s', Finished, Finished, 1))))"
proof (intro conjI allI impI)
  show "finalizeUpload E now' uid (finalizeUpload E now uid s) = finalizeUpload E now uid s"
    by (rule finalizeUpload_idem)
next
  fix u assume "get_upload s uid = Some u \<and> status u \<noteq> UPLOADING"
  then show "finalize_lock now uid s = (None, s)" and "finalizeUpload E now uid s = s"
    by (simp_all add: finalizeUpload_def finalize_lock_noop)
next
  fix u assume h: "get_upload s uid = Some u \<and> status u = UPLOADING"
  then have i0: "two_inv uid (s, Ready, Ready, 0)"
    by (simp add: two_inv_def)
  have i1: "two_inv uid (run_two E uid [(True, now), (True, now)] (s, Ready, Ready, 0))"
    using i0 by (rule run_two_inv)
  have "run_two E uid [(True, now), (True, now)] (s, Ready, Ready, 0)
          = (finalizeUpload E now uid s, Finished, Ready, 1)"
    using h by (simp add: fin_step_def finalize_lock_wins finalizeUpload_def)
  with i1 show "\<exists>u'. get_upload (finalizeUpload E now uid s) uid = Some u'
                    \<and> (status u' = COMPLETED \<or> status u' = FAILED)"
    by (auto simp: two_inv_def is_locked_def split: option.splits)
  {
    fix sched s' p1 p2 n
    assume r: "run_two E uid sched (s, Ready, Ready, 0) = (s', p1, p2, n)"
    have i: "two_inv uid (s', p1, p2, n)"
      using run_two_inv [OF i0, of E sched] r by simp
    show "n \<le> 1" using i by (rule two_inv_count)
    {
      assume "p1 = Finished \<and> p2 = Finished"
      with i have "two_inv uid (s', Finished, Finished, n)" by simp
      from two_inv_finished [OF this]
      show "n = 1"
        and "\<exists>u'. get_upload s' uid = Some u' \<and> (status u' = COMPLETED \<or> status u' = FAILED)"
        by auto
    }
  }
  {
    fix sched :: "(bool \<times> int) list"
    assume l: "2 \<le> length (filter fst sched) \<and> 2 \<le> length (filter (\<lambda>x. \<not> fst x) sched)"
    then have "steps_left Ready \<le> length (filter fst sched)"
      and "steps_left Ready \<le> length (filter (\<lambda>x. \<not> fst x) sched)"
      by (simp_all add: steps_left_def)
    from run_two_finishes [OF this, of E uid s 0]
    obtain s' n' where r: "run_two E uid sched (s, Ready, Ready, 0) = (s', Finished, Finished, n')"
      by blast
    have "two_inv uid (s', Finished, Finished, n')"
      using run_two_inv [OF i0, of E sched] r by simp
    from two_inv_finished [OF this] r
    show "\<exists>s'. run_two E uid sched (s, Ready, Ready, 0) = (s', Finished, Finished, 1)"
      by auto
  }
qed

theorem finalize_twice_witness:
  "get_upload st_one ''b'' = Some row_b \<and> status row_b = UPLOADING
   \<and> (\<exists>s'. run_two env0 ''b'' [(True, 1), (False, 2), (False, 3), (True, 4)]
              (st_one, Ready, Ready, 0) = (s', Finished, Finished, 1))"
proof -
  have g: "get_upload st_one ''b'' = Some row_b"
    by (simp add: get_upload_def select_upload_def st_one_def row_b_def)
  have u: "status row_b = UPLOADING"
    by (simp add: row_b_def)
  have l: "2 \<le> length (filter fst [(True, 1), (False, 2), (False, 3), (True, 4 :: int)])
           \<and> 2 \<le> length (filter (\<lambda>x. \<not> fst x) [(True, 1), (False, 2), (False, 3), (True, 4 :: int)])"
    by simp
  from finalize_twice [of env0 0 "''b''" 0 st_one] g u
  have "\<forall>sched. 2 \<le> length (filter fst sched) \<and> 2 \<le> length (filter (\<lambda>x. \<not> fst x) sched)
          \<longrightarrow> (\<exists>s'. run_two env0 ''b'' sched (st_one, Ready, Ready, 0)
                      = (s', Finished, Finished, 1))"
    by blast
  with l have "\<exists>s'. run_two env0 ''b'' [(True, 1), (False, 2), (False, 3), (True, 4)]
                      (st_one, Ready, Ready, 0) = (s', Finished, Finished, 1)"
    by blast
  with g u show ?thesis by blast
qed


section \<open>Recovery\<close>

lemma update_uploads_keeps:
  assumes "\<And>u. \<not> Q (g u)"
    and "u' \<in> set (uploads (update_uploads uid g s))" and "Q u'"
  shows "u' \<in> set (uploads s) \<and> up_id u' \<noteq> uid"
  using assms by (auto simp: update_uploads_def split: if_splits)

text \<open>A sweep step: every row that satisfies Q afterwards was there before, with another id.\<close>

lemma fold_sweep_clears:
  assumes step: "\<And>r s u'. u' \<in> set (uploads (step r s)) \<Longrightarrow> Q u'
                   \<Longrightarrow> u' \<in> set (uploads s) \<and> up_id u' \<noteq> up_id r"
    and cover: "\<forall>u \<in> set (uploads s). Q u \<longrightarrow> up_id u \<in> up_id ` set rows"
  shows "\<forall>u \<in> set (uploads (fold step rows s)). \<not> Q u"
  using cover
proof (induction rows arbitrary: s)
  case Nil
  then show ?case by simp
next
  case (Cons r rows)
  have "\<forall>u \<in> set (uploads (step r s)). Q u \<longrightarrow> up_id u \<in> up_id ` set rows"
  proof (intro ballI impI)
    fix u assume u: "u \<in> set (uploads (step r s))" and q: "Q u"
    from step [OF u q] have "u \<in> set (uploads s)" and ne: "up_id u \<noteq> up_id r" by auto
    with Cons.prems q have "up_id u \<in> up_id ` set (r # rows)" by blast
    with ne show "up_id u \<in> up_id ` set rows" by auto
  qed
  from Cons.IH [OF this] show ?case by simp
qed

lemma fold_sweep_preserves:
  assumes step: "\<And>r s u'. u' \<in> set (uploads (step r s)) \<Longrightarrow> Q u' \<Longrightarrow> u' \<in> set (uploads s)"
    and none: "\<forall>u \<in> set (uploads s). \<not> Q u"
  shows "\<forall>u \<in> set (uploads (fold step rows s)). \<not> Q u"
  using none
proof (induction rows arbitrary: s)
  case Nil
  then show ?case by simp
next
  case (Cons r rows)
  have "\<forall>u \<in> set (uploads (step r s)). \<not> Q u"
    using step Cons.prems by blast
  from Cons.IH [OF this] show ?case by simp
qed

lemma recoverSingleUpload_processing:
  assumes "u' \<in> set (uploads (recoverSingleUpload E now r s))" and "status u' = PROCESSING"
  shows "u' \<in> set (uploads s) \<and> up_id u' \<noteq> up_id r"
  using assms
  by (auto simp: recoverSingleUpload_def Let_def
      split: if_splits option.splits sum.splits
      dest!: update_uploads_keeps [where Q = "\<lambda>u. status u = PROCESSING", rotated 1])

lemma no_processing_after_sweep_A:
  "\<forall>u \<in> set (uploads (recoverInterruptedUploads E now s)). status u \<noteq> PROCESSING"
  unfolding recoverInterruptedUploads_def
  by (rule fold_sweep_clears [where Q = "\<lambda>u. status u = PROCESSING"])
     (auto dest: recoverSingleUpload_processing)

lemma abandon_step_keeps:
  assumes "u' \<in> set (uploads (abandon_upload now r s))"
    and "status u' \<noteq> FAILED"
  shows "u' \<in> set (uploads s) \<and> up_id u' \<noteq> up_id r"
  using assms by (auto simp: abandon_upload_def update_uploads_def split: if_splits)

lemma no_abandoned_after_sweep_B:
  "\<forall>u \<in> set (uploads (recoverAbandonedUploads E now s)).
     \<not> (status u = UPLOADING \<and> created_at u < date_sub_hours E now (ABANDONED_TIMEOUT_HOURS E))"
  unfolding recoverAbandonedUploads_def
  by (rule fold_sweep_clears
        [where Q = "\<lambda>u. status u = UPLOADING
                        \<and> created_at u < date_sub_hours E now (ABANDONED_TIMEOUT_HOURS E)"])
     (auto dest: abandon_step_keeps)

lemma no_processing_after_sweep_B:
  assumes "\<forall>u \<in> set (uploads s). status u \<noteq> PROCESSING"
  shows "\<forall>u \<in> set (uploads (recoverAbandonedUploads E now s)). status u \<noteq> PROCESSING"
  unfolding recoverAbandonedUploads_def
  by (rule fold_sweep_preserves [where Q = "\<lambda>u. status u = PROCESSING"])
     (use assms in \<open>auto dest: abandon_step_keeps\<close>)

lemma sweep_A_noop:
  "\<forall>u \<in> set (uploads s). status u \<noteq> PROCESSING \<Longrightarrow> recoverInterruptedUploads E now s = s"
  by (simp add: recoverInterruptedUploads_def filter_empty_conv [THEN iffD2])

lemma sweep_B_noop:
  "\<forall>u \<in> set (uploads s).
     \<not> (status u = UPLOADING \<and> created_at u < date_sub_hours E now (ABANDONED_TIMEOUT_HOURS E))
   \<Longrightarrow> recoverAbandonedUploads E now s = s"
  by (simp add: recoverAbandonedUploads_def filter_empty_conv [THEN iffD2])


text \<open>
  C4: running the RecoveryService (Sweep A, then Sweep B) a second time, at the same
  reading of the clock, gives the state (both tables and the files) the first run left.
\<close>

theorem recovery_twice:
  "performStartupRecovery E now (performStartupRecovery E now s) = performStartupRecovery E now s"
proof -
  let ?s1 = "recoverInterruptedUploads E now s"
  let ?s2 = "recoverAbandonedUploads E now ?s1"
  have a: "\<forall>u \<in> set (uploads ?s2). status u \<noteq> PROCESSING"
    by (rule no_processing_after_sweep_B) (rule no_processing_after_sweep_A)
  have b: "recoverInterruptedUploads E now ?s2 = ?s2"
    by (rule sweep_A_noop) (rule a)
  have c: "recoverAbandonedUploads E now ?s2 = ?s2"
    by (rule sweep_B_noop) (rule no_abandoned_after_sweep_B)
  show ?thesis
    by (simp add: performStartupRecovery_def b c)
qed


theorem recovery_twice_witness:
  "performStartupRecovery env0 200000 (performStartupRecovery env0 200000 (st_two PROCESSING SUCCESS))
     = performStartupRecovery env0 200000 (st_two PROCESSING SUCCESS)
   \<and> map status (uploads (performStartupRecovery env0 200000 (st_two PROCESSING SUCCESS)))
       = [FAILED]"
proof -
  have "map status (uploads (performStartupRecovery env0 200000 (st_two PROCESSING SUCCESS)))
          = [FAILED]"
    by code_simp
  with recovery_twice [of env0 200000 "st_two PROCESSING SUCCESS"] show ?thesis
    by simp
qed

text \<open>
  At a later reading of the clock the second run's Sweep A still finds nothing: only
  Sweep B can act, on sessions that have crossed the cutoff in the meantime.
\<close>

lemma recovery_later_sweep_A_noop:
  "recoverInterruptedUploads E now' (performStartupRecovery E now s) = performStartupRecovery E now s"
  unfolding performStartupRecovery_def
  by (rule sweep_A_noop) (rule no_processing_after_sweep_B, rule no_processing_after_sweep_A)


section \<open>Session creation\<close>

lemma init_ok_shape:
  assumes "initializeUpload E now uid req s = ((200, InitOk uid' ixs), s')"
  shows "uid \<notin> set (map up_id (uploads s)) \<and> uid' = uid
       \<and> (\<exists>n. chunks s' = chunks s @ map (\<lambda>i. \<lparr>upload_id = uid, chunk_index = i,
                                        cstatus = PENDING, received_at = None\<rparr>) [0..<n])
       \<and> ixs = map chunk_index
                 (filter (\<lambda>c. upload_id c = uid \<and> cstatus c = SUCCESS) (chunks s'))"
  using assms
  by (clarsimp simp: initializeUpload_def Let_def insert_upload_def insert_chunks_def
      split: option.splits if_splits) blast


text \<open>
  C9: in a store that satisfies the foreign key of \<open>chunks\<close> (every chunk row names an
  upload), every successful \<open>initializeUpload\<close> returns an empty \<open>uploadedChunks\<close> list,
  for the id it generated, and all chunk rows of that id are PENDING.
\<close>

theorem init_reports_no_chunks:
  assumes fk: "\<forall>c \<in> set (chunks s). upload_id c \<in> set (map up_id (uploads s))"
    and ok: "initializeUpload E now uid req s = ((200, InitOk uid' ixs), s')"
  shows "ixs = [] \<and> uid' = uid
       \<and> (\<forall>c \<in> set (chunks s'). upload_id c = uid \<longrightarrow> cstatus c = PENDING)"
proof -
  from init_ok_shape [OF ok] obtain n where
    fresh: "uid \<notin> set (map up_id (uploads s))" and uid: "uid' = uid"
    and ch: "chunks s' = chunks s @ map (\<lambda>i. \<lparr>upload_id = uid, chunk_index = i,
                                        cstatus = PENDING, received_at = None\<rparr>) [0..<n]"
    and ixs: "ixs = map chunk_index
                 (filter (\<lambda>c. upload_id c = uid \<and> cstatus c = SUCCESS) (chunks s'))"
    by blast
  from fk fresh have old: "\<forall>c \<in> set (chunks s). upload_id c \<noteq> uid" by auto
  have new: "\<forall>c \<in> set (map (\<lambda>i. \<lparr>upload_id = uid, chunk_index = i,
                                   cstatus = PENDING, received_at = None\<rparr>) [0..<n]).
               cstatus c = PENDING"
    by simp
  have pend: "\<forall>c \<in> set (chunks s'). upload_id c = uid \<longrightarrow> cstatus c = PENDING"
    unfolding ch using old new by (simp only: set_append) blast
  then have "filter (\<lambda>c. upload_id c = uid \<and> cstatus c = SUCCESS) (chunks s') = []"
    by (auto simp: filter_empty_conv)
  with ixs uid pend show ?thesis by simp
qed

theorem init_reports_no_chunks_witness:
  "initializeUpload env0 100 ''a''
     \<lparr>req_filename = Some ''x.zip'', req_totalSize = Some 6, req_totalChunks = Some 2\<rparr>
     empty_state
   = ((200, InitOk ''a'' []),
      snd (initializeUpload env0 100 ''a''
             \<lparr>req_filename = Some ''x.zip'', req_totalSize = Some 6, req_totalChunks = Some 2\<rparr>
             empty_state))"
proof -
  have fk: "\<forall>c \<in> set (chunks empty_state). upload_id c \<in> set (map up_id (uploads empty_state))"
    by (simp add: empty_state_def)
  have ok: "fst (initializeUpload env0 100 ''a''
                  \<lparr>req_filename = Some ''x.zip'', req_totalSize = Some 6,
                     req_totalChunks = Some 2\<rparr> empty_state)
              = (200, InitOk ''a'' [])"
    by code_simp
  then have "initializeUpload env0 100 ''a''
               \<lparr>req_filename = Some ''x.zip'', req_totalSize = Some 6,
                  req_totalChunks = Some 2\<rparr> empty_state
             = ((200, InitOk ''a'' []),
                snd (initializeUpload env0 100 ''a''
                       \<lparr>req_filename = Some ''x.zip'', req_totalSize = Some 6,
                          req_totalChunks = Some 2\<rparr> empty_state))"
    by (metis prod.collapse)
  from init_reports_no_chunks [OF fk this] this show ?thesis
    by simp
qed

text \<open>The state this call leaves is the example state \<open>st_two UPLOADING PENDING\<close>.\<close>

lemma st_two_from_init:
  "uploads (snd (initializeUpload env0 100 ''a''
                  \<lparr>req_filename = Some ''x.zip'', req_totalSize = Some 6,
                     req_totalChunks = Some 2\<rparr> empty_state))
     = uploads (st_two UPLOADING PENDING)
   \<and> chunks (snd (initializeUpload env0 100 ''a''
                  \<lparr>req_filename = Some ''x.zip'', req_totalSize = Some 6,
                     req_totalChunks = Some 2\<rparr> empty_state))
     = chunks (st_two UPLOADING PENDING)
   \<and> files (snd (initializeUpload env0 100 ''a''
                  \<lparr>req_filename = Some ''x.zip'', req_totalSize = Some 6,
                     req_totalChunks = Some 2\<rparr> empty_state)) ''up/a.zip''
     = files (st_two UPLOADING PENDING) ''up/a.zip''"
  by code_simp


section \<open>Cleanup sweep\<close>

lemma uploads_cleanup_upload:
  "uploads (cleanup_upload r s)
     = map (\<lambda>u. if up_id u = up_id r then u\<lparr>status := FAILED\<rparr> else u) (uploads s)"
  by (simp add: cleanup_upload_def update_uploads_def)

lemma files_cleanup_upload:
  "files (cleanup_upload r s) = (files s)(file_path r := None)"
  by (simp add: cleanup_upload_def update_uploads_def safeDeleteFile_def)

lemma cleanup_fold_uploads:
  "uploads (fold cleanup_upload rows s)
   = map (\<lambda>u. if up_id u \<in> up_id ` set rows then u\<lparr>status := FAILED\<rparr> else u) (uploads s)"
proof (induction rows arbitrary: s)
  case Nil
  then show ?case by simp
next
  case (Cons r rows)
  show ?case
    by (simp add: Cons.IH uploads_cleanup_upload comp_def)
qed

lemma cleanup_fold_files:
  "files (fold cleanup_upload rows s) p
   = (if p \<in> file_path ` set rows then None else files s p)"
proof (induction rows arbitrary: s)
  case Nil
  then show ?case by simp
next
  case (Cons r rows)
  show ?case
    by (simp add: Cons.IH files_cleanup_upload)
qed

lemma timeoutHours_configured:
  "env_ABANDONED_UPLOAD_TIMEOUT E = Some t \<Longrightarrow> t \<noteq> 0 \<Longrightarrow> timeoutHours E = t div 3600000"
  by (simp add: timeoutHours_def ABANDONED_TIMEOUT_def or_default_def)


text \<open>
  C10, as stated, fails at its edges. A configured timeout of \<open>0\<close> ms is falsy, so line 5
  falls back to 86400000 ms and the cutoff is 24 hours, not 0: an UPLOADING session
  created an hour before the sweep stays, with its blob. And with a timeout of
  1800000 ms the cutoff is 0 hours, but the comparison is strict: a session created at
  the sweep's \<open>NOW()\<close> stays, while one created a second earlier is reaped.
\<close>

theorem cleanup_zero_timeout_and_fresh_session:
  "timeoutHours (env0\<lparr>env_ABANDONED_UPLOAD_TIMEOUT := Some 0\<rparr>) = 24
   \<and> uploads (cleanupAbandonedUploads (env0\<lparr>env_ABANDONED_UPLOAD_TIMEOUT := Some 0\<rparr>) 3700
                (st_two UPLOADING PENDING)) = [row_a UPLOADING]
   \<and> files (cleanupAbandonedUploads (env0\<lparr>env_ABANDONED_UPLOAD_TIMEOUT := Some 0\<rparr>) 3700
              (st_two UPLOADING PENDING)) ''up/a.zip'' = Some [0, 0, 0, 0, 0, 0]
   \<and> timeoutHours (env0\<lparr>env_ABANDONED_UPLOAD_TIMEOUT := Some 1800000\<rparr>) = 0
   \<and> uploads (cleanupAbandonedUploads (env0\<lparr>env_ABANDONED_UPLOAD_TIMEOUT := Some 1800000\<rparr>) 100
                (st_two UPLOADING PENDING)) = [row_a UPLOADING]
   \<and> map status (uploads (cleanupAbandonedUploads
                            (env0\<lparr>env_ABANDONED_UPLOAD_TIMEOUT := Some 1800000\<rparr>) 101
                            (st_two UPLOADING PENDING))) = [FAILED]"
  by code_simp

text \<open>
  C10 (amended): for every configured timeout \<open>t \<noteq> 0\<close> (in ms) the sweep's cutoff is
  \<open>floor (t / 3600000)\<close> hours: every UPLOADING row created strictly before
  \<open>NOW()\<close> minus that many hours has its blob deleted and its status set to FAILED, and
  a row whose id is not the id of such a row is left as it is. For \<open>0 < t < 3600000\<close>
  the cutoff is 0 hours, so this reaps every UPLOADING session created strictly before
  the sweep's \<open>NOW()\<close>, however young.
\<close>

theorem cleanup_cutoff:
  assumes "env_ABANDONED_UPLOAD_TIMEOUT E = Some t" and "t \<noteq> 0"
  shows "timeoutHours E = t div 3600000
       \<and> (0 < t \<and> t < 3600000 \<longrightarrow> timeoutHours E = 0)
       \<and> (\<forall>u \<in> set (uploads s).
             status u = UPLOADING \<and> created_at u < now - 3600 * (t div 3600000)
             \<longrightarrow> files (cleanupAbandonedUploads E now s) (file_path u) = None
               \<and> (\<forall>u' \<in> set (select_upload (cleanupAbandonedUploads E now s) (up_id u)).
                     status u' = FAILED))
       \<and> (\<forall>u \<in> set (uploads s).
             (\<forall>r \<in> set (uploads s).
                status r = UPLOADING \<and> created_at r < now - 3600 * (t div 3600000)
                \<longrightarrow> up_id r \<noteq> up_id u)
             \<longrightarrow> u \<in> set (uploads (cleanupAbandonedUploads E now s)))"
proof -
  note h = timeoutHours_configured [OF assms]
  have 1: "timeoutHours E = t div 3600000" by (rule h)
  have 2: "0 < t \<and> t < 3600000 \<longrightarrow> timeoutHours E = 0"
    by (simp add: h)
  have 3: "\<forall>u \<in> set (uploads s).
             status u = UPLOADING \<and> created_at u < now - 3600 * (t div 3600000)
             \<longrightarrow> files (cleanupAbandonedUploads E now s) (file_path u) = None
               \<and> (\<forall>u' \<in> set (select_upload (cleanupAbandonedUploads E now s) (up_id u)).
                     status u' = FAILED)"
    by (auto simp: cleanupAbandonedUploads_def cleanup_fold_files cleanup_fold_uploads
        abandonedUploads_def h select_upload_def split: if_splits)
  have 4: "\<forall>u \<in> set (uploads s).
             (\<forall>r \<in> set (uploads s).
                status r = UPLOADING \<and> created_at r < now - 3600 * (t div 3600000)
                \<longrightarrow> up_id r \<noteq> up_id u)
             \<longrightarrow> u \<in> set (uploads (cleanupAbandonedUploads E now s))"
    by (auto simp: cleanupAbandonedUploads_def cleanup_fold_uploads abandonedUploads_def h
        image_iff)
  from 1 2 3 4 show ?thesis by blast
qed


theorem cleanup_cutoff_witness:
  "timeoutHours (env0\<lparr>env_ABANDONED_UPLOAD_TIMEOUT := Some 1800000\<rparr>) = 0
   \<and> files (cleanupAbandonedUploads (env0\<lparr>env_ABANDONED_UPLOAD_TIMEOUT := Some 1800000\<rparr>) 101
              (st_two UPLOADING PENDING)) (file_path (row_a UPLOADING)) = None"
proof -
  have h1: "env_ABANDONED_UPLOAD_TIMEOUT (env0\<lparr>env_ABANDONED_UPLOAD_TIMEOUT := Some 1800000\<rparr>)
              = Some 1800000"
    by simp
  have h2: "(1800000::int) \<noteq> 0" by simp
  have m: "row_a UPLOADING \<in> set (uploads (st_two UPLOADING PENDING))"
    by (simp add: st_two_def)
  have c: "status (row_a UPLOADING) = UPLOADING
           \<and> created_at (row_a UPLOADING) < 101 - 3600 * (1800000 div 3600000)"
    by (simp add: row_a_def)
  from cleanup_cutoff [OF h1 h2, of "st_two UPLOADING PENDING" 101]
  have t: "timeoutHours (env0\<lparr>env_ABANDONED_UPLOAD_TIMEOUT := Some 1800000\<rparr>)
             = 1800000 div 3600000"
    and a: "\<forall>u \<in> set (uploads (st_two UPLOADING PENDING)).
              status u = UPLOADING \<and> created_at u < 101 - 3600 * (1800000 div 3600000)
              \<longrightarrow> files (cleanupAbandonedUploads
                           (env0\<lparr>env_ABANDONED_UPLOAD_TIMEOUT := Some 1800000\<rparr>) 101
                           (st_two UPLOADING PENDING)) (file_path u) = None
                \<and> (\<forall>u' \<in> set (select_upload
                                   (cleanupAbandonedUploads
                                      (env0\<lparr>env_ABANDONED_UPLOAD_TIMEOUT := Some 1800000\<rparr>) 101
                                      (st_two UPLOADING PENDING)) (up_id u)).
                      status u' = FAILED)"
    by blast+
  from t have "timeoutHours (env0\<lparr>env_ABANDONED_UPLOAD_TIMEOUT := Some 1800000\<rparr>) = 0"
    by simp
  moreover from a m c
  have "files (cleanupAbandonedUploads (env0\<lparr>env_ABANDONED_UPLOAD_TIMEOUT := Some 1800000\<rparr>) 101
                 (st_two UPLOADING PENDING)) (file_path (row_a UPLOADING)) = None"
    by blast
  ultimately show ?thesis by simp
qed


section \<open>The stored hash\<close>

lemma blob_path_inj: "blob_path E a = blob_path E b \<Longrightarrow> a = b"
  by (simp add: blob_path_def)

lemma same_id_same_row:
  "distinct (map up_id xs) \<Longrightarrow> u \<in> set xs \<Longrightarrow> u' \<in> set xs \<Longrightarrow> up_id u = up_id u' \<Longrightarrow> u = u'"
  by (auto simp: distinct_map dest: inj_onD)

lemma get_upload_mem:
  "get_upload s uid = Some u \<Longrightarrow> u \<in> set (uploads s) \<and> up_id u = uid"
proof -
  assume "get_upload s uid = Some u"
  then have "u \<in> set (select_upload s uid)"
    by (auto simp: get_upload_def split: list.splits)
  then show ?thesis by (simp add: select_upload_def)
qed

lemma select_upload_mem:
  assumes "select_upload s uid = u # rest"
  shows "u \<in> set (uploads s) \<and> up_id u = uid"
proof -
  from assms have "u \<in> set (select_upload s uid)" by simp
  then show ?thesis by (simp add: select_upload_def)
qed

lemma blob_matches_cong:
  "files s' (file_path u) = files s (file_path u) \<Longrightarrow> blob_matches E s' u = blob_matches E s u"
  by (simp add: blob_matches_def)

text \<open>Updating the rows of one id keeps the invariant when the updated rows are in order.\<close>

lemma store_inv_update:
  assumes inv: "store_inv E s"
    and id: "\<And>u. up_id (f u) = up_id u"
    and ok: "\<And>u. u \<in> set (uploads s) \<Longrightarrow> up_id u = uid \<Longrightarrow> row_ok E s (f u)"
  shows "store_inv E (update_uploads uid f s)"
proof -
  have ids: "map up_id (uploads (update_uploads uid f s)) = map up_id (uploads s)"
    by (simp add: update_uploads_def id cong: map_cong)
  have fs: "files (update_uploads uid f s) = files s"
    by (simp add: update_uploads_def)
  have rows: "\<forall>u \<in> set (uploads (update_uploads uid f s)). row_ok E s u"
    using inv ok by (auto simp: update_uploads_def store_inv_def)
  have "row_ok E (update_uploads uid f s) u = row_ok E s u" for u
    by (simp add: row_ok_def blob_matches_def fs)
  with rows ids inv show ?thesis
    by (simp add: store_inv_def)
qed

text \<open>Changing files that are the blob of no COMPLETED upload keeps the invariant.\<close>

lemma store_inv_files:
  assumes inv: "store_inv E s"
    and up: "uploads s' = uploads s"
    and fr: "\<And>u. u \<in> set (uploads s) \<Longrightarrow> status u = COMPLETED
               \<Longrightarrow> files s' (file_path u) = files s (file_path u)"
  shows "store_inv E s'"
  using assms by (auto simp: store_inv_def row_ok_def blob_matches_def)

lemma uploading_no_hash:
  "store_inv E s \<Longrightarrow> u \<in> set (uploads s) \<Longrightarrow> status u \<noteq> COMPLETED \<Longrightarrow> final_hash u = None"
  by (auto simp: store_inv_def row_ok_def)

lemma row_path:
  "store_inv E s \<Longrightarrow> u \<in> set (uploads s) \<Longrightarrow> file_path u = blob_path E (up_id u)"
  by (auto simp: store_inv_def row_ok_def)

lemma store_inv_lock:
  assumes "store_inv E s"
  shows "store_inv E (snd (finalize_lock now uid s))"
proof (cases "get_upload s uid")
  case None
  with assms show ?thesis by (simp add: finalize_lock_missing)
next
  case (Some u)
  show ?thesis
  proof (cases "status u = UPLOADING")
    case False
    with Some assms show ?thesis by (simp add: finalize_lock_noop)
  next
    case True
    from get_upload_mem [OF Some] have mem: "u \<in> set (uploads s)" and uid: "up_id u = uid"
      by auto
    have "store_inv E (update_uploads uid (\<lambda>u. u\<lparr>status := PROCESSING, updated_at := now\<rparr>) s)"
    proof (rule store_inv_update [OF assms])
      fix u' assume u': "u' \<in> set (uploads s)" "up_id u' = uid"
      with mem uid assms have "u' = u"
        by (auto simp: store_inv_def intro: same_id_same_row)
      with True mem assms show "row_ok E s (u'\<lparr>status := PROCESSING, updated_at := now\<rparr>)"
        using uploading_no_hash [OF assms mem] row_path [OF assms mem]
        by (simp add: row_ok_def)
    qed simp
    with Some True show ?thesis by (simp add: finalize_lock_wins)
  qed
qed

lemma update_uploads_twice:
  assumes "\<And>u. up_id (f u) = up_id u"
  shows "update_uploads uid g (update_uploads uid f s) = update_uploads uid (\<lambda>u. g (f u)) s"
  by (simp add: update_uploads_def assms comp_def cong: map_cong)

lemma files_update_uploads [simp]: "files (update_uploads uid f s) = files s"
  by (simp add: update_uploads_def)

lemma chunks_update_uploads [simp]: "chunks (update_uploads uid f s) = chunks s"
  by (simp add: update_uploads_def)

lemma store_inv_finalize:
  assumes "store_inv E s"
  shows "store_inv E (finalizeUpload E now uid s)"
proof (cases "get_upload s uid")
  case None
  with assms show ?thesis by (simp add: finalizeUpload_def finalize_lock_missing)
next
  case (Some u)
  show ?thesis
  proof (cases "status u = UPLOADING")
    case False
    with Some assms show ?thesis by (simp add: finalizeUpload_def finalize_lock_noop)
  next
    case True
    from get_upload_mem [OF Some] have mem: "u \<in> set (uploads s)" and uid: "up_id u = uid"
      by auto
    have only: "u' = u" if "u' \<in> set (uploads s)" "up_id u' = uid" for u'
      using that mem uid assms by (auto simp: store_inv_def intro: same_id_same_row)
    note nh = uploading_no_hash [OF assms mem] and pa = row_path [OF assms mem]
    let ?lock = "\<lambda>u. u\<lparr>status := PROCESSING, updated_at := now\<rparr>"
    have e: "finalizeUpload E now uid s
               = finalize_verify E now uid u (update_uploads uid ?lock s)"
      using Some True by (simp add: finalizeUpload_def finalize_lock_wins)
    show ?thesis
      unfolding e finalize_verify_def
      using True nh pa
      by (auto simp: update_uploads_twice row_ok_def blob_matches_def getFileSize_def
          calculateFileHash_def isValidZip_def
          split: option.splits
          intro!: store_inv_update [OF assms] dest!: only)
  qed
qed

lemma store_inv_write:
  assumes inv: "store_inv E s" and sel: "select_upload s uid = u # rest"
    and st: "status u = UPLOADING"
  shows "store_inv E (s\<lparr>files := (files s)(file_path u \<mapsto> b)\<rparr>)"
proof (rule store_inv_files [OF inv])
  fix c assume c: "c \<in> set (uploads s)" "status c = COMPLETED"
  from sel have mem: "u \<in> set (uploads s)"
    by (rule select_upload_mem [THEN conjunct1])
  have "file_path c \<noteq> file_path u"
  proof
    assume "file_path c = file_path u"
    with row_path [OF inv c(1)] row_path [OF inv mem] have "up_id c = up_id u"
      by (auto dest: blob_path_inj)
    with c(1) mem inv have "c = u"
      by (auto simp: store_inv_def intro: same_id_same_row)
    with c(2) st show False by simp
  qed
  then show "files (s\<lparr>files := (files s)(file_path u \<mapsto> b)\<rparr>) (file_path c)
               = files s (file_path c)"
    by simp
qed simp

lemma store_inv_mark:
  "store_inv E s \<Longrightarrow> store_inv E (mark_chunk_success now uid i s)"
  by (rule store_inv_files) simp_all

lemma store_inv_chunk:
  assumes "store_inv E s"
  shows "store_inv E (fst (snd (uploadChunk E now req s)))"
  using assms
  by (auto simp: uploadChunk_def Let_def writeChunkAtOffset_def
      split: option.splits list.splits js_num.splits sum.splits if_splits
      intro!: store_inv_mark store_inv_write)

lemma store_inv_prealloc:
  assumes inv: "store_inv E s" and fresh: "uid \<notin> set (map up_id (uploads s))"
  shows "store_inv E (s\<lparr>files := preallocateFile (files s) (blob_path E uid) n\<rparr>)"
proof (rule store_inv_files [OF inv])
  fix c assume c: "c \<in> set (uploads s)" "status c = COMPLETED"
  with fresh have "up_id c \<noteq> uid" by auto
  with row_path [OF inv c(1)] have "file_path c \<noteq> blob_path E uid"
    by (auto dest: blob_path_inj)
  then show "files (s\<lparr>files := preallocateFile (files s) (blob_path E uid) n\<rparr>) (file_path c)
               = files s (file_path c)"
    by (simp add: preallocateFile_def)
qed simp

lemma store_inv_append:
  assumes inv: "store_inv E s" and fresh: "up_id r \<notin> set (map up_id (uploads s))"
    and r: "file_path r = blob_path E (up_id r)" "final_hash r = None" "status r = UPLOADING"
  shows "store_inv E (s\<lparr>uploads := uploads s @ [r], chunks := cs\<rparr>)"
  using assms by (auto simp: store_inv_def row_ok_def blob_matches_def)

lemma store_inv_init:
  assumes inv: "store_inv E s" and fresh: "uid \<notin> set (map up_id (uploads s))"
  shows "store_inv E (snd (initializeUpload E now uid req s))"
proof -
  let ?s1 = "\<lambda>n. s\<lparr>files := preallocateFile (files s) (blob_path E uid) n\<rparr>"
  have 1: "store_inv E (?s1 n)" for n
    by (rule store_inv_prealloc [OF inv fresh])
  have f1: "uid \<notin> set (map up_id (uploads (?s1 n)))" for n
    using fresh by simp
  have 2: "store_inv E ((?s1 n)\<lparr>uploads := uploads (?s1 n) @ [r], chunks := cs\<rparr>)"
    if "up_id r = uid" "file_path r = blob_path E uid" "final_hash r = None" "status r = UPLOADING"
    for n r cs
    by (rule store_inv_append [OF 1]) (use that f1 in auto)
  show ?thesis
    using inv 1 2
    by (auto simp: initializeUpload_def Let_def insert_upload_def insert_chunks_def
        split: option.splits if_splits)
qed

text \<open>A sweep keeps the invariant when each of its steps does, on a row of the table.\<close>

lemma store_inv_fold:
  assumes step: "\<And>r s. store_inv E s \<Longrightarrow> r \<in> set (uploads s) \<Longrightarrow> P r
                   \<Longrightarrow> store_inv E (step r s)"
    and keeps: "\<And>r r' s. r' \<in> set (uploads s) \<Longrightarrow> up_id r' \<noteq> up_id r
                   \<Longrightarrow> r' \<in> set (uploads (step r s))"
    and inv: "store_inv E s"
    and rows: "\<forall>r \<in> set rows. r \<in> set (uploads s) \<and> P r"
    and dist: "distinct (map up_id rows)"
  shows "store_inv E (fold step rows s)"
  using inv rows dist
proof (induction rows arbitrary: s)
  case Nil
  then show ?case by simp
next
  case (Cons r rows)
  from Cons.prems have 1: "store_inv E (step r s)"
    by (auto intro: step)
  have 2: "\<forall>r' \<in> set rows. r' \<in> set (uploads (step r s)) \<and> P r'"
  proof (intro ballI conjI)
    fix r' assume r': "r' \<in> set rows"
    from Cons.prems(3) have "up_id r \<notin> up_id ` set rows" by simp
    with r' have "up_id r' \<noteq> up_id r" by (metis imageI)
    with r' Cons.prems(2) show "r' \<in> set (uploads (step r s))"
      by (auto intro!: keeps)
    from r' Cons.prems(2) show "P r'" by simp
  qed
  from Cons.prems(3) have 3: "distinct (map up_id rows)" by simp
  from Cons.IH [OF 1 2 3] show ?case by simp
qed

lemma update_uploads_other:
  "r' \<in> set (uploads s) \<Longrightarrow> up_id r' \<noteq> uid \<Longrightarrow> r' \<in> set (uploads (update_uploads uid f s))"
  by (auto simp: update_uploads_def)

lemma store_inv_recover_single:
  assumes inv: "store_inv E s" and mem: "r \<in> set (uploads s)" and st: "status r = PROCESSING"
  shows "store_inv E (recoverSingleUpload E now r s)"
proof -
  have only: "u' = r" if "u' \<in> set (uploads s)" "up_id u' = up_id r" for u'
    using that mem inv by (auto simp: store_inv_def intro: same_id_same_row)
  from st have "status r \<noteq> COMPLETED" by simp
  note nh = uploading_no_hash [OF inv mem this] and pa = row_path [OF inv mem]
  show ?thesis
    unfolding recoverSingleUpload_def
    using st nh pa
    by (auto simp: Let_def row_ok_def blob_matches_def fileExists_def getFileSize_def
        calculateFileHash_def isValidZip_def
        split: option.splits
        intro!: store_inv_update [OF inv] dest!: only)
qed

lemma recoverSingleUpload_other:
  "r' \<in> set (uploads s) \<Longrightarrow> up_id r' \<noteq> up_id r
   \<Longrightarrow> r' \<in> set (uploads (recoverSingleUpload E now r s))"
  by (auto simp: recoverSingleUpload_def Let_def update_uploads_other
      split: option.splits sum.splits)

lemma distinct_filter_ids:
  "distinct (map up_id xs) \<Longrightarrow> distinct (map up_id (filter P xs))"
  by (simp add: distinct_map_filter)

lemma store_inv_sweep_A:
  assumes "store_inv E s"
  shows "store_inv E (recoverInterruptedUploads E now s)"
  unfolding recoverInterruptedUploads_def
proof (rule store_inv_fold [where P = "\<lambda>r. status r = PROCESSING"])
  show "store_inv E s" by (rule assms)
  show "distinct (map up_id (filter (\<lambda>u. status u = PROCESSING) (uploads s)))"
    using assms by (simp add: store_inv_def distinct_filter_ids)
qed (auto intro: store_inv_recover_single recoverSingleUpload_other)

lemma store_inv_delete:
  assumes inv: "store_inv E s" and mem: "r \<in> set (uploads s)" and st: "status r = UPLOADING"
  shows "store_inv E (s\<lparr>files := safeDeleteFile (files s) (file_path r)\<rparr>)"
proof (rule store_inv_files [OF inv])
  fix c assume c: "c \<in> set (uploads s)" "status c = COMPLETED"
  have "file_path c \<noteq> file_path r"
  proof
    assume "file_path c = file_path r"
    with row_path [OF inv c(1)] row_path [OF inv mem] have "up_id c = up_id r"
      by (auto dest: blob_path_inj)
    with c(1) mem inv have "c = r"
      by (auto simp: store_inv_def intro: same_id_same_row)
    with c(2) st show False by simp
  qed
  then show "files (s\<lparr>files := safeDeleteFile (files s) (file_path r)\<rparr>) (file_path c)
               = files s (file_path c)"
    by (simp add: safeDeleteFile_def)
qed simp

lemma store_inv_fail_row:
  assumes inv: "store_inv E s" and mem: "r \<in> set (uploads s)" and st: "status r = UPLOADING"
    and f: "\<And>u. up_id (f u) = up_id u" "\<And>u. file_path (f u) = file_path u"
           "\<And>u. final_hash (f u) = final_hash u" "\<And>u. status (f u) = FAILED"
  shows "store_inv E (update_uploads (up_id r) f s)"
proof (rule store_inv_update [OF inv f(1)])
  fix u' assume "u' \<in> set (uploads s)" "up_id u' = up_id r"
  with mem inv have "u' = r"
    by (auto simp: store_inv_def intro: same_id_same_row)
  with st uploading_no_hash [OF inv mem] row_path [OF inv mem]
  show "row_ok E s (f u')"
    by (simp add: row_ok_def f)
qed

lemma store_inv_abandon:
  assumes inv: "store_inv E s" and mem: "r \<in> set (uploads s)" and st: "status r = UPLOADING"
  shows "store_inv E (abandon_upload now r s)"
  unfolding abandon_upload_def
  by (rule store_inv_fail_row [OF store_inv_delete [OF inv mem st]]) (use mem st in simp_all)

lemma store_inv_cleanup_upload:
  assumes inv: "store_inv E s" and mem: "r \<in> set (uploads s)" and st: "status r = UPLOADING"
  shows "store_inv E (cleanup_upload r s)"
  unfolding cleanup_upload_def
  by (rule store_inv_fail_row [OF store_inv_delete [OF inv mem st]]) (use mem st in simp_all)

lemma abandon_upload_other:
  "r' \<in> set (uploads s) \<Longrightarrow> up_id r' \<noteq> up_id r
   \<Longrightarrow> r' \<in> set (uploads (abandon_upload now r s))"
  by (simp add: abandon_upload_def update_uploads_other)

lemma cleanup_upload_other:
  "r' \<in> set (uploads s) \<Longrightarrow> up_id r' \<noteq> up_id r
   \<Longrightarrow> r' \<in> set (uploads (cleanup_upload r s))"
  by (simp add: cleanup_upload_def update_uploads_other)

lemma store_inv_sweep_B:
  assumes "store_inv E s"
  shows "store_inv E (recoverAbandonedUploads E now s)"
  unfolding recoverAbandonedUploads_def
proof (rule store_inv_fold [where P = "\<lambda>r. status r = UPLOADING"])
  show "store_inv E s" by (rule assms)
  show "distinct (map up_id (filter (\<lambda>u. status u = UPLOADING
          \<and> created_at u < date_sub_hours E now (ABANDONED_TIMEOUT_HOURS E)) (uploads s)))"
    using assms by (simp add: store_inv_def distinct_filter_ids)
qed (auto intro: store_inv_abandon abandon_upload_other)

lemma store_inv_cleanup:
  assumes "store_inv E s"
  shows "store_inv E (cleanupAbandonedUploads E now s)"
  unfolding cleanupAbandonedUploads_def abandonedUploads_def
proof (rule store_inv_fold [where P = "\<lambda>r. status r = UPLOADING"])
  show "store_inv E s" by (rule assms)
  show "distinct (map up_id (filter (\<lambda>u. status u = UPLOADING
          \<and> created_at u < now - 3600 * timeoutHours E) (uploads s)))"
    using assms by (simp add: store_inv_def distinct_filter_ids)
qed (auto intro: store_inv_cleanup_upload cleanup_upload_other)

lemma reachable_inv: "reachable E s \<Longrightarrow> store_inv E s"
proof (induction rule: reachable.induct)
  case start
  show ?case by (simp add: store_inv_def empty_state_def)
next
  case (init s uid now req)
  then show ?case by (simp add: store_inv_init)
next
  case (chunk s now req)
  then show ?case by (simp add: store_inv_chunk)
next
  case (finalize s now uid)
  then show ?case by (simp add: store_inv_finalize)
next
  case (lock s now uid)
  then show ?case by (simp add: store_inv_lock)
next
  case (recovery s now)
  then show ?case by (simp add: performStartupRecovery_def store_inv_sweep_A store_inv_sweep_B)
next
  case (cleanup s now)
  then show ?case by (simp add: store_inv_cleanup)
next
  case (stop_after_prealloc s uid n)
  then show ?case by (simp add: store_inv_prealloc)
next
  case (stop_in_write s uid u rest b)
  then show ?case by (simp add: store_inv_write)
next
  case (stop_after_delete s u)
  then show ?case by (simp add: store_inv_delete)
qed




text \<open>The same holds in the state either of them leaves.\<close>

lemma hash_after_finalize_and_recovery:
  assumes "reachable E s"
  shows "\<forall>u \<in> set (uploads (finalizeUpload E now uid s)).
           (final_hash u \<noteq> None \<longrightarrow> status u = COMPLETED)
           \<and> (status u = COMPLETED \<longrightarrow> blob_matches E (finalizeUpload E now uid s) u)"
    and "\<forall>u \<in> set (uploads (performStartupRecovery E now s)).
           (final_hash u \<noteq> None \<longrightarrow> status u = COMPLETED)
           \<and> (status u = COMPLETED \<longrightarrow> blob_matches E (performStartupRecovery E now s) u)"
  using reachable_inv [OF reachable.finalize [OF assms, of now uid]]
    reachable_inv [OF reachable.recovery [OF assms, of now]]
  by (auto simp: store_inv_def row_ok_def)


end
